theory Spec2Isabelle
  imports Main "HOL-Library.AList"
begin

section \<open>ThreadFront: the session/pause coordinator\<close>

text \<open>
  A shallow embedding of the class \<open>_ThreadFront\<close>. A method that mutates the object
  takes the object's state and returns the new one. An \<open>async\<close> method is split at
  its \<open>await\<close>: one function for the part that runs when the method is called, one for
  the part that runs when the awaited promise settles; what the closure captured at the
  \<open>await\<close> is carried by a token. A failed \<open>assert\<close> is the error value
  \<open>AssertionFailed\<close>. Events given to \<open>emit\<close> and requests given to the protocol
  client are appended to logs kept in the state.
\<close>

subsection \<open>Protocol types\<close>

type_synonym ExecutionPoint = string
type_synonym TimeStamp = int
type_synonym SourceId = string
type_synonym SessionId = string
type_synonym BreakpointId = string

record Location =
  loc_sourceId :: SourceId
  loc_line :: int
  loc_column :: int

type_synonym MappedLocation = "Location list"

text \<open>\<open>PauseDescription\<close>: a point, its time, and the frame when the point has one.\<close>

record PauseDescription =
  pd_point :: ExecutionPoint
  pd_time :: TimeStamp
  pd_frame :: "MappedLocation option"

datatype SourceKind =
  InlineScript | ScriptSource | OtherKind | Html | SourceMapped | PrettyPrinted

record Source =
  kind :: SourceKind
  url :: "string option"
  generatedSourceIds :: "SourceId list option"

record PauseEventArgs =
  ev_point :: ExecutionPoint
  ev_time :: TimeStamp
  ev_hasFrames :: "bool option"

datatype Event = Paused PauseEventArgs | Resumed

text \<open>The six commands given to \<open>_resumeOperation\<close> and \<open>_findResumeTarget\<close>.\<close>

datatype FindTargetCommand =
  FindRewindTarget | FindResumeTarget | FindReverseStepOverTarget
  | FindStepOverTarget | FindStepInTarget | FindStepOutTarget

text \<open>
  Modelled from the spec: the protocol client is not part of the sources; \<open>command.name\<close>
  is the name of the client's method, the command kind that the cache key is built from.
\<close>

fun command_name :: "FindTargetCommand \<Rightarrow> string" where
  "command_name FindRewindTarget = ''findRewindTarget''"
| "command_name FindResumeTarget = ''findResumeTarget''"
| "command_name FindReverseStepOverTarget = ''findReverseStepOverTarget''"
| "command_name FindStepOverTarget = ''findStepOverTarget''"
| "command_name FindStepInTarget = ''findStepInTarget''"
| "command_name FindStepOutTarget = ''findStepOutTarget''"

datatype error = AssertionFailed | RemoteFailure | TypeError

text \<open>
  Modelled from the spec: the class \<open>Pause\<close> is imported, not part of the sources. A
  Pause carries the point, time and frame flag of the position it stands for once they
  are known, and nothing before.
\<close>

record Pause =
  pause_point :: "ExecutionPoint option"
  pause_time :: "TimeStamp option"
  pause_hasFrames :: "bool option"

text \<open>Requests handed to the protocol client, in the order they are issued.\<close>

datatype Request =
  FindTargetReq FindTargetCommand ExecutionPoint SessionId
  | SetBreakpointReq Location "string option" SessionId
  | RemoveBreakpointReq BreakpointId SessionId
  | BlackboxSourceReq SourceId SessionId
  | UnblackboxSourceReq SourceId SessionId
  | CreatePauseReq ExecutionPoint TimeStamp SessionId

subsection \<open>Truthiness\<close>

text \<open>
  The source tests values for truthiness: an absent value, the empty string, the number
  zero and \<open>false\<close> are falsy.
\<close>

definition truthy_str :: "string option \<Rightarrow> bool" where
  "truthy_str v = (case v of None \<Rightarrow> False | Some x \<Rightarrow> x \<noteq> [])"

definition truthy_num :: "int option \<Rightarrow> bool" where
  "truthy_num v = (case v of None \<Rightarrow> False | Some n \<Rightarrow> n \<noteq> 0)"

definition truthy_bool :: "bool option \<Rightarrow> bool" where
  "truthy_bool v = (case v of None \<Rightarrow> False | Some b \<Rightarrow> b)"

subsection \<open>The state\<close>

text \<open>What a listener reading the coordinator's fields sees when an event reaches it.\<close>

record Snapshot =
  seen_point :: ExecutionPoint
  seen_time :: TimeStamp
  seen_hasFrames :: bool
  seen_pause :: "Pause option"
  seen_asyncPauses :: "Pause list"

text \<open>
  A lookup of \<open>_findResumeTarget\<close> suspended at its \<open>await\<close>: the cache key and the
  epoch read before the request was sent.
\<close>

record Lookup =
  lk_key :: string
  lk_epoch :: int

datatype FindStart = Known PauseDescription | Awaiting Lookup | Failed error

text \<open>
  A branch of \<open>_precacheResumeTargets\<close> suspended at its \<open>await\<close>: the point and
  epoch read when pre-caching began, the follow-up commands (empty for a transitive
  branch), and the lookup it waits for.
\<close>

record PrecacheTask =
  pt_point :: ExecutionPoint
  pt_epoch :: int
  pt_transitive :: "FindTargetCommand list"
  pt_lookup :: FindStart

record WarpTarget =
  wt_point :: ExecutionPoint
  wt_time :: TimeStamp
  wt_hasFrames :: "bool option"

record ThreadFront =
  currentPoint :: ExecutionPoint
  currentTime :: TimeStamp
  currentPointHasFrames :: bool
  currentPause :: "Pause option"
  asyncPauses :: "Pause list"
  sessionId :: "SessionId option"
  sources :: "(SourceId \<times> Source) list"
  originalSources :: "SourceId \<Rightarrow> SourceId list"
  preferredGeneratedSources :: "SourceId set"
  resumeTargets :: "string \<rightharpoonup> PauseDescription"
  resumeTargetEpoch :: int
  numPendingInvalidateCommands :: int
  invalidateCommandWaiters :: "nat list"
  allPauses :: "ExecutionPoint \<rightharpoonup> Pause"
  breakpoints :: "(BreakpointId \<times> Location) list"
  warpCallback ::
    "(ExecutionPoint \<Rightarrow> TimeStamp \<Rightarrow> bool option \<Rightarrow> WarpTarget option) option"
  emitted :: "(Event \<times> Snapshot) list"
  sent :: "Request list"
  spawned :: "PrecacheTask list"
  released :: "nat list"

text \<open>
  \<open>originalSources\<close> is an \<open>ArrayMap\<close>, read everywhere as
  \<open>originalSources.map.get(id) || []\<close>: a function to lists, empty where the key is
  absent. \<open>invalidateCommandWaiters\<close> holds the resolve hooks of deferred promises,
  named by numbers; \<open>released\<close> lists the hooks that have been called. \<open>emitted\<close>,
  \<open>sent\<close> and \<open>spawned\<close> are the logs of the events emitted, the requests issued
  and the pre-caching branches left waiting.
\<close>

definition snapshot :: "ThreadFront \<Rightarrow> Snapshot" where
  "snapshot s = \<lparr> seen_point = currentPoint s, seen_time = currentTime s,
     seen_hasFrames = currentPointHasFrames s, seen_pause = currentPause s,
     seen_asyncPauses = asyncPauses s \<rparr>"

text \<open>
  Modelled from the spec: \<open>emit\<close> comes from the \<open>EventEmitter\<close> mixin, which is not
  part of the sources. It calls the listeners synchronously, so an event is logged with
  the state the listeners find.
\<close>

definition emit :: "Event \<Rightarrow> ThreadFront \<Rightarrow> ThreadFront" where
  "emit e s = s\<lparr> emitted := emitted s @ [(e, snapshot s)] \<rparr>"

text \<open>The initial field values of the class.\<close>

definition initial :: ThreadFront where
  "initial = \<lparr> currentPoint = ''0'', currentTime = 0, currentPointHasFrames = False,
     currentPause = None, asyncPauses = [], sessionId = None, sources = [],
     originalSources = (\<lambda>_. []), preferredGeneratedSources = {},
     resumeTargets = Map.empty, resumeTargetEpoch = 0, numPendingInvalidateCommands = 0,
     invalidateCommandWaiters = [], allPauses = Map.empty, breakpoints = [],
     warpCallback = None, emitted = [], sent = [], spawned = [], released = [] \<rparr>"

definition setSessionId :: "SessionId \<Rightarrow> ThreadFront \<Rightarrow> ThreadFront" where
  "setSessionId sid s = s\<lparr> sessionId := Some sid \<rparr>"

subsection \<open>Pauses\<close>

text \<open>
  \<open>ensurePause\<close>: the Pause cached for the point, or a new one whose creation is
  requested from the service; the new Pause knows nothing until the service answers.
\<close>

definition ensurePause ::
  "ExecutionPoint \<Rightarrow> TimeStamp \<Rightarrow> ThreadFront \<Rightarrow> error + (Pause \<times> ThreadFront)" where
  "ensurePause point time s =
     (if \<not> truthy_str (sessionId s) then Inl AssertionFailed
      else case allPauses s point of
        Some pause \<Rightarrow> Inr (pause, s)
      | None \<Rightarrow>
          (let pause = \<lparr> pause_point = None, pause_time = None, pause_hasFrames = None \<rparr>
           in Inr (pause,
                s\<lparr> sent := sent s @ [CreatePauseReq point time (the (sessionId s))],
                   allPauses := (allPauses s)(point \<mapsto> pause) \<rparr>)))"

definition ensureCurrentPause :: "ThreadFront \<Rightarrow> error + ThreadFront" where
  "ensureCurrentPause s =
     (if currentPause s = None then
        (case ensurePause (currentPoint s) (currentTime s) s of
           Inl e \<Rightarrow> Inl e
         | Inr (pause, s') \<Rightarrow> Inr (s'\<lparr> currentPause := Some pause \<rparr>))
      else Inr s)"

text \<open>
  \<open>getFrames\<close> answers with the empty array, or with what the current Pause's own
  \<open>getFrames\<close> gives, or throws when \<open>ensureCurrentPause\<close> does.
\<close>

datatype FramesResult = NoFrames | FramesOfPause Pause | FramesError error

definition getFrames :: "ThreadFront \<Rightarrow> FramesResult \<times> ThreadFront" where
  "getFrames s =
     (if \<not> currentPointHasFrames s then (NoFrames, s)
      else case ensureCurrentPause s of
        Inl e \<Rightarrow> (FramesError e, s)
      | Inr s' \<Rightarrow> (FramesOfPause (the (currentPause s')), s'))"

subsection \<open>Resume targets\<close>

definition target_key :: "ExecutionPoint \<Rightarrow> FindTargetCommand \<Rightarrow> string" where
  "target_key point command = point @ '':'' @ command_name command"

text \<open>
  \<open>_findResumeTarget\<close> up to its \<open>await\<close>: the assertion, the cache lookup, and on a
  miss the epoch read and the request sent.
\<close>

definition findResumeTarget_begin ::
  "ExecutionPoint \<Rightarrow> FindTargetCommand \<Rightarrow> ThreadFront \<Rightarrow> FindStart \<times> ThreadFront" where
  "findResumeTarget_begin point command s =
     (if \<not> truthy_str (sessionId s) then (Failed AssertionFailed, s)
      else case resumeTargets s (target_key point command) of
        Some knownTarget \<Rightarrow> (Known knownTarget, s)
      | None \<Rightarrow>
          (Awaiting \<lparr> lk_key = target_key point command, lk_epoch = resumeTargetEpoch s \<rparr>,
           s\<lparr> sent := sent s @ [FindTargetReq command point (the (sessionId s))] \<rparr>))"

text \<open>\<open>_findResumeTarget\<close> from the moment the service answers with \<open>target\<close>.\<close>

definition findResumeTarget_resolve ::
  "Lookup \<Rightarrow> PauseDescription \<Rightarrow> ThreadFront \<Rightarrow> PauseDescription \<times> ThreadFront" where
  "findResumeTarget_resolve lk target s =
     (target,
      if lk_epoch lk = resumeTargetEpoch s
      then s\<lparr> resumeTargets := (resumeTargets s)(lk_key lk \<mapsto> target) \<rparr>
      else s)"

text \<open>
  The value a caller awaiting \<open>_findResumeTarget\<close> receives, whichever way the call
  began; \<open>answer\<close> is the service's answer, read only by a call that was waiting for it.
\<close>

definition findResumeTarget_finish ::
  "FindStart \<Rightarrow> PauseDescription \<Rightarrow> ThreadFront \<Rightarrow> (error + PauseDescription) \<times> ThreadFront"
  where
  "findResumeTarget_finish st answer s =
     (case st of
        Known knownTarget \<Rightarrow> (Inr knownTarget, s)
      | Failed e \<Rightarrow> (Inl e, s)
      | Awaiting lk \<Rightarrow>
          (let (target, s') = findResumeTarget_resolve lk answer s in (Inr target, s')))"

subsection \<open>Speculative pre-caching\<close>

definition stepCommands :: "(FindTargetCommand \<times> FindTargetCommand list) list" where
  "stepCommands =
     [(FindReverseStepOverTarget, [FindReverseStepOverTarget, FindStepInTarget]),
      (FindStepOverTarget, [FindStepOverTarget, FindStepInTarget]),
      (FindStepInTarget, [FindStepOutTarget, FindStepInTarget]),
      (FindStepOutTarget,
         [FindReverseStepOverTarget, FindStepOverTarget, FindStepInTarget,
          FindStepOutTarget])]"

text \<open>
  One branch of a \<open>forEach\<close> up to its \<open>await\<close>: the lookup begins, and the branch is
  left waiting for it.
\<close>

definition precache_branch ::
  "ExecutionPoint \<Rightarrow> int \<Rightarrow> ExecutionPoint \<Rightarrow> FindTargetCommand \<Rightarrow> FindTargetCommand list
     \<Rightarrow> ThreadFront \<Rightarrow> ThreadFront" where
  "precache_branch point epoch start command transitive s =
     (let (st, s') = findResumeTarget_begin start command s
      in s'\<lparr> spawned := spawned s' @
            [\<lparr> pt_point = point, pt_epoch = epoch, pt_transitive = transitive,
               pt_lookup = st \<rparr>] \<rparr>)"

definition precacheResumeTargets :: "ThreadFront \<Rightarrow> ThreadFront" where
  "precacheResumeTargets s =
     (if \<not> currentPointHasFrames s then s
      else
        (let point = currentPoint s; epoch = resumeTargetEpoch s
         in foldl (\<lambda>s' (command, transitive).
                     precache_branch point epoch point command transitive s')
              s stepCommands))"

text \<open>
  A branch from the moment its lookup settles. A branch of the first level
  (\<open>pt_transitive\<close> not empty) gives up when the epoch has advanced or the target has no
  frame, creates the target's Pause, gives up when the current point has moved, and
  starts the follow-up lookups. A transitive branch makes all three checks first and
  only creates the Pause. A branch that throws is a rejected promise nobody awaits.
\<close>

definition precache_resume ::
  "PrecacheTask \<Rightarrow> PauseDescription \<Rightarrow> ThreadFront \<Rightarrow> ThreadFront" where
  "precache_resume task answer s =
     (case findResumeTarget_finish (pt_lookup task) answer s of
        (Inl e, s1) \<Rightarrow> s1
      | (Inr target, s1) \<Rightarrow>
          if pt_transitive task = [] then
            (if pt_epoch task \<noteq> resumeTargetEpoch s1 \<or> pt_point task \<noteq> currentPoint s1
                \<or> pd_frame target = None then s1
             else case ensurePause (pd_point target) (pd_time target) s1 of
                    Inl e \<Rightarrow> s1 | Inr (pause, s2) \<Rightarrow> s2)
          else
            (if pt_epoch task \<noteq> resumeTargetEpoch s1 \<or> pd_frame target = None then s1
             else case ensurePause (pd_point target) (pd_time target) s1 of
                    Inl e \<Rightarrow> s1
                  | Inr (pause, s2) \<Rightarrow>
                      if pt_point task \<noteq> currentPoint s2 then s2
                      else foldl (\<lambda>s' command.
                                    precache_branch (pt_point task) (pt_epoch task)
                                      (pd_point target) command [] s')
                             s2 (pt_transitive task)))"

subsection \<open>Warping\<close>

definition timeWarp ::
  "ExecutionPoint \<Rightarrow> TimeStamp \<Rightarrow> bool option \<Rightarrow> bool option \<Rightarrow> ThreadFront \<Rightarrow> ThreadFront"
  where
  "timeWarp point time hasFrames force s =
     (let newTarget =
            (case warpCallback s of
               None \<Rightarrow> None
             | Some callback \<Rightarrow>
                 if \<not> truthy_bool force then callback point time hasFrames else None);
          point' = (case newTarget of None \<Rightarrow> point | Some t \<Rightarrow> wt_point t);
          time' = (case newTarget of None \<Rightarrow> time | Some t \<Rightarrow> wt_time t);
          hasFrames' = (case newTarget of None \<Rightarrow> hasFrames | Some t \<Rightarrow> wt_hasFrames t);
          s1 = s\<lparr> currentPoint := point', currentTime := time',
                  currentPointHasFrames := truthy_bool hasFrames',
                  currentPause := None, asyncPauses := [] \<rparr>;
          s2 = emit (Paused \<lparr> ev_point = point', ev_time = time',
                              ev_hasFrames = hasFrames' \<rparr>) s1
      in precacheResumeTargets s2)"

definition timeWarpToPause :: "Pause \<Rightarrow> ThreadFront \<Rightarrow> error + ThreadFront" where
  "timeWarpToPause pause s =
     (if \<not> (truthy_str (pause_point pause) \<and> truthy_num (pause_time pause)
             \<and> pause_hasFrames pause \<noteq> None)
      then Inl AssertionFailed
      else
        (let point = the (pause_point pause); time = the (pause_time pause);
             hasFrames = the (pause_hasFrames pause);
             s1 = s\<lparr> currentPoint := point, currentTime := time,
                     currentPointHasFrames := hasFrames,
                     currentPause := Some pause, asyncPauses := [] \<rparr>;
             s2 = emit (Paused \<lparr> ev_point = point, ev_time = time,
                                 ev_hasFrames = Some hasFrames \<rparr>) s1
         in Inr (precacheResumeTargets s2)))"

subsection \<open>Invalidation\<close>

text \<open>
  The operations wrapped by \<open>_invalidateResumeTargets\<close>: the callbacks of
  \<open>setBreakpoint\<close>, \<open>removeBreakpoint\<close>, \<open>blackbox\<close> and \<open>unblackbox\<close>. Each
  asserts the session id and awaits one request.
\<close>

datatype Mutation =
  SetBreakpoint Location "string option"
  | RemoveBreakpoint BreakpointId
  | Blackbox SourceId
  | Unblackbox SourceId

fun mutation_request :: "Mutation \<Rightarrow> SessionId \<Rightarrow> Request" where
  "mutation_request (SetBreakpoint location condition) sid =
     SetBreakpointReq location condition sid"
| "mutation_request (RemoveBreakpoint breakpointId) sid = RemoveBreakpointReq breakpointId sid"
| "mutation_request (Blackbox sourceId) sid = BlackboxSourceReq sourceId sid"
| "mutation_request (Unblackbox sourceId) sid = UnblackboxSourceReq sourceId sid"

text \<open>How a callback stands at its \<open>await\<close>, and how the service answers it.\<close>

datatype MutationStart = MutationWaiting | MutationFailed error

datatype Outcome = Fulfilled "BreakpointId option" | Rejected

definition mutation_begin :: "Mutation \<Rightarrow> ThreadFront \<Rightarrow> MutationStart \<times> ThreadFront" where
  "mutation_begin m s =
     (if \<not> truthy_str (sessionId s) then (MutationFailed AssertionFailed, s)
      else (MutationWaiting,
            s\<lparr> sent := sent s @ [mutation_request m (the (sessionId s))] \<rparr>))"

fun mutation_resume :: "Mutation \<Rightarrow> Outcome \<Rightarrow> ThreadFront \<Rightarrow> error + ThreadFront" where
  "mutation_resume m Rejected s = Inl RemoteFailure"
| "mutation_resume (SetBreakpoint location condition) (Fulfilled breakpointId) s =
     (if truthy_str breakpointId
      then Inr (s\<lparr> breakpoints :=
                     AList.update (the breakpointId) location (breakpoints s) \<rparr>)
      else Inr s)"
| "mutation_resume m (Fulfilled r) s = Inr s"

text \<open>
  \<open>_invalidateResumeTargets\<close> up to \<open>await callback()\<close>: the cache is cleared, the
  epoch and the counter go up, and the callback runs to its own \<open>await\<close>.
\<close>

definition invalidateResumeTargets_begin ::
  "Mutation \<Rightarrow> ThreadFront \<Rightarrow> MutationStart \<times> ThreadFront" where
  "invalidateResumeTargets_begin m s =
     mutation_begin m
       (s\<lparr> resumeTargets := Map.empty,
           resumeTargetEpoch := resumeTargetEpoch s + 1,
           numPendingInvalidateCommands := numPendingInvalidateCommands s + 1 \<rparr>)"

text \<open>The \<open>finally\<close> block.\<close>

definition invalidate_finally :: "ThreadFront \<Rightarrow> ThreadFront" where
  "invalidate_finally s =
     (let s1 = s\<lparr> numPendingInvalidateCommands := numPendingInvalidateCommands s - 1 \<rparr>
      in if numPendingInvalidateCommands s1 = 0
         then precacheResumeTargets
                (s1\<lparr> released := released s1 @ invalidateCommandWaiters s1,
                     invalidateCommandWaiters := [] \<rparr>)
         else s1)"

text \<open>
  \<open>_invalidateResumeTargets\<close> from the moment the callback settles: the callback's
  continuation, the \<open>finally\<close> block, and the result of the promise that
  \<open>_invalidateResumeTargets\<close> returned.
\<close>

definition invalidateResumeTargets_end ::
  "Mutation \<Rightarrow> MutationStart \<Rightarrow> Outcome \<Rightarrow> ThreadFront \<Rightarrow> (error + unit) \<times> ThreadFront" where
  "invalidateResumeTargets_end m st outcome s =
     (case st of
        MutationFailed e \<Rightarrow> (Inl e, invalidate_finally s)
      | MutationWaiting \<Rightarrow>
          (case mutation_resume m outcome s of
             Inl e \<Rightarrow> (Inl e, invalidate_finally s)
           | Inr s' \<Rightarrow> (Inr (), invalidate_finally s')))"

text \<open>
  \<open>waitForInvalidateCommandsToFinish\<close>: nothing to wait for (\<open>None\<close>), or the promise
  of a new deferred whose resolve hook \<open>w\<close> joins the waiters.
\<close>

definition waitForInvalidateCommandsToFinish ::
  "nat \<Rightarrow> ThreadFront \<Rightarrow> nat option \<times> ThreadFront" where
  "waitForInvalidateCommandsToFinish w s =
     (if numPendingInvalidateCommands s = 0 then (None, s)
      else (Some w, s\<lparr> invalidateCommandWaiters := invalidateCommandWaiters s @ [w] \<rparr>))"

text \<open>
  \<open>setBreakpoint\<close> calls \<open>_invalidateResumeTargets\<close> inside \<open>try\<close> without awaiting
  it. The call of an \<open>async\<close> method returns a promise and throws nothing, so the
  \<open>catch\<close> block is never entered, and \<open>setBreakpoint\<close> is fulfilled as soon as the
  synchronous part of \<open>_invalidateResumeTargets\<close> has run. The first component is what
  the caller of \<open>setBreakpoint\<close> receives; the second says how the dropped promise of
  \<open>_invalidateResumeTargets\<close> stands.
\<close>

definition setBreakpoint ::
  "SourceId \<Rightarrow> int \<Rightarrow> int \<Rightarrow> string option \<Rightarrow> ThreadFront
     \<Rightarrow> (error + unit) \<times> MutationStart \<times> ThreadFront" where
  "setBreakpoint sourceId line column condition s =
     (let location = \<lparr> loc_sourceId = sourceId, loc_line = line, loc_column = column \<rparr>;
          (st, s') = invalidateResumeTargets_begin (SetBreakpoint location condition) s
      in (Inr (), st, s'))"

text \<open>
  What happens to \<open>setBreakpoint\<close>'s pending mutation when the service answers: the
  result of the promise that \<open>setBreakpoint\<close> dropped, and the state. The promise
  has no handler, so a rejection (\<open>Inl\<close>) is left unhandled: it reaches neither
  the \<open>catch\<close> block nor the caller, and the runtime reports it.
\<close>

definition setBreakpoint_settled ::
  "SourceId \<Rightarrow> int \<Rightarrow> int \<Rightarrow> string option \<Rightarrow> MutationStart \<Rightarrow> Outcome \<Rightarrow> ThreadFront
     \<Rightarrow> (error + unit) \<times> ThreadFront" where
  "setBreakpoint_settled sourceId line column condition st outcome s =
     invalidateResumeTargets_end
       (SetBreakpoint \<lparr> loc_sourceId = sourceId, loc_line = line, loc_column = column \<rparr>
          condition) st outcome s"

subsection \<open>Interleavings\<close>

text \<open>
  The coordinator runs on one thread; between the two halves of an \<open>async\<close> method any
  number of other turns may run. A turn is one of the following.
\<close>

datatype Action =
  TimeWarp ExecutionPoint TimeStamp "bool option" "bool option"
  | TimeWarpToPause Pause
  | GetFrames
  | FindBegin ExecutionPoint FindTargetCommand
  | FindResolve Lookup PauseDescription
  | PrecacheResume PrecacheTask PauseDescription
  | InvalidateBegin Mutation
  | InvalidateEnd Mutation MutationStart Outcome
  | WaitForInvalidate nat

fun step :: "Action \<Rightarrow> ThreadFront \<Rightarrow> ThreadFront" where
  "step (TimeWarp point time hasFrames force) s = timeWarp point time hasFrames force s"
| "step (TimeWarpToPause pause) s =
     (case timeWarpToPause pause s of Inl e \<Rightarrow> s | Inr s' \<Rightarrow> s')"
| "step GetFrames s = snd (getFrames s)"
| "step (FindBegin point command) s = snd (findResumeTarget_begin point command s)"
| "step (FindResolve lk target) s = snd (findResumeTarget_resolve lk target s)"
| "step (PrecacheResume task answer) s = precache_resume task answer s"
| "step (InvalidateBegin m) s = snd (invalidateResumeTargets_begin m s)"
| "step (InvalidateEnd m st outcome) s = snd (invalidateResumeTargets_end m st outcome s)"
| "step (WaitForInvalidate w) s = snd (waitForInvalidateCommandsToFinish w s)"

definition run :: "Action list \<Rightarrow> ThreadFront \<Rightarrow> ThreadFront" where
  "run actions s = foldl (\<lambda>s' a. step a s') s actions"

fun invalidates :: "Action \<Rightarrow> bool" where
  "invalidates (InvalidateBegin m) = True"
| "invalidates a = False"

text \<open>Whether a turn may write the cache entry of \<open>key\<close>.\<close>

fun writes_key :: "string \<Rightarrow> Action \<Rightarrow> bool" where
  "writes_key key (FindResolve lk target) = (lk_key lk = key)"
| "writes_key key (PrecacheResume task answer) =
     (case pt_lookup task of Awaiting lk \<Rightarrow> lk_key lk = key | _ \<Rightarrow> False)"
| "writes_key key (InvalidateBegin m) = True"
| "writes_key key a = False"

subsection \<open>Resume operations\<close>















subsection \<open>The source registry\<close>

text \<open>
  Modelled from the spec: \<open>ArrayMap\<close> is imported, not part of the sources; its
  \<open>add\<close> appends a value to the array kept under a key.
\<close>

definition arrayMap_add ::
  "SourceId \<Rightarrow> SourceId \<Rightarrow> (SourceId \<Rightarrow> SourceId list) \<Rightarrow> (SourceId \<Rightarrow> SourceId list)" where
  "arrayMap_add k v m = m(k := m k @ [v])"

text \<open>
  The listener installed by \<open>findSources\<close>, as far as it touches \<open>sources\<close> and
  \<open>originalSources\<close>.
\<close>

definition newSource :: "SourceId \<Rightarrow> Source \<Rightarrow> ThreadFront \<Rightarrow> ThreadFront" where
  "newSource sourceId source s =
     s\<lparr> sources := AList.update sourceId source (sources s),
        originalSources :=
          foldl (\<lambda>m generatedId. arrayMap_add generatedId sourceId m) (originalSources s)
            (case generatedSourceIds source of None \<Rightarrow> [] | Some ids \<Rightarrow> ids) \<rparr>"

definition getSourceKind :: "ThreadFront \<Rightarrow> SourceId \<Rightarrow> SourceKind option" where
  "getSourceKind s sourceId = map_option kind (map_of (sources s) sourceId)"

definition isMinifiedSource :: "ThreadFront \<Rightarrow> SourceId \<Rightarrow> bool" where
  "isMinifiedSource s sourceId =
     list_ex (\<lambda>srcId. case map_of (sources s) srcId of
                      None \<Rightarrow> False
                    | Some info \<Rightarrow> kind info = PrettyPrinted)
       (originalSources s sourceId)"

text \<open>
  The entry of the minified twin of a pretty-printed source: the entry of the first of
  its generated ids, when there is one and it is registered.
\<close>

definition minifiedInfo :: "ThreadFront \<Rightarrow> Source \<Rightarrow> Source option" where
  "minifiedInfo s info =
     (case generatedSourceIds info of
        None \<Rightarrow> None
      | Some [] \<Rightarrow> None
      | Some (g # gs) \<Rightarrow> map_of (sources s) g)"

definition isSourceMappedSource :: "ThreadFront \<Rightarrow> SourceId \<Rightarrow> error + bool" where
  "isSourceMappedSource s sourceId =
     (case map_of (sources s) sourceId of
        None \<Rightarrow> Inr False
      | Some info \<Rightarrow>
          if kind info = PrettyPrinted then
            (case minifiedInfo s info of
               None \<Rightarrow> Inr False
             | Some m \<Rightarrow>
                 if kind m = PrettyPrinted then Inl AssertionFailed
                 else Inr (kind m = SourceMapped))
          else Inr (kind info = SourceMapped))"

text \<open>\<open>preferSource\<close>; \<open>value\<close> is read for its truthiness only.\<close>

definition preferSource :: "SourceId \<Rightarrow> bool \<Rightarrow> ThreadFront \<Rightarrow> error + ThreadFront" where
  "preferSource sourceId value s =
     (case isSourceMappedSource s sourceId of
        Inl e \<Rightarrow> Inl e
      | Inr True \<Rightarrow> Inl AssertionFailed
      | Inr False \<Rightarrow>
          if value
          then Inr (s\<lparr> preferredGeneratedSources :=
                          insert sourceId (preferredGeneratedSources s) \<rparr>)
          else Inr (s\<lparr> preferredGeneratedSources :=
                          preferredGeneratedSources s - {sourceId} \<rparr>))"

subsection \<open>Choosing a source\<close>

record SourceChoice =
  choice_sourceId :: SourceId
  choice_alternateId :: "SourceId option"

text \<open>
  The \<open>for\<close> loop of \<open>_chooseSourceId\<close>, with \<open>generatedId\<close> and \<open>originalId\<close> as
  accumulators. It ends with an early \<open>return\<close> (\<open>Inr (Inl choice)\<close>), with a failed
  assertion, or at the end of the list with the two ids (\<open>Inr (Inr (generatedId,
  originalId))\<close>).
\<close>

fun chooseLoop ::
  "ThreadFront \<Rightarrow> SourceId list \<Rightarrow> SourceId option \<Rightarrow> SourceId option
     \<Rightarrow> error + (SourceChoice + SourceId option \<times> SourceId option)" where
  "chooseLoop s [] generatedId originalId = Inr (Inr (generatedId, originalId))"
| "chooseLoop s (srcId # ids) generatedId originalId =
     (case map_of (sources s) srcId of
        None \<Rightarrow> Inr (Inl \<lparr> choice_sourceId = srcId, choice_alternateId = None \<rparr>)
      | Some info \<Rightarrow>
          if kind info = PrettyPrinted then
            (case minifiedInfo s info of
               None \<Rightarrow> Inr (Inl \<lparr> choice_sourceId = srcId, choice_alternateId = None \<rparr>)
             | Some m \<Rightarrow>
                 if kind m = PrettyPrinted then Inl AssertionFailed
                 else if kind m = SourceMapped then chooseLoop s ids generatedId (Some srcId)
                 else if truthy_str generatedId then Inl AssertionFailed
                 else chooseLoop s ids (Some srcId) originalId)
          else if kind info = SourceMapped then chooseLoop s ids generatedId (Some srcId)
          else if truthy_str generatedId then Inl AssertionFailed
          else chooseLoop s ids (Some srcId) originalId)"

definition chooseSourceId :: "ThreadFront \<Rightarrow> SourceId list \<Rightarrow> error + SourceChoice" where
  "chooseSourceId s sourceIds =
     (let ids1 = (if list_ex (\<lambda>srcId. getSourceKind s srcId = Some Html) sourceIds
                  then filter (\<lambda>srcId. getSourceKind s srcId \<noteq> Some InlineScript) sourceIds
                  else sourceIds);
          ids2 = filter (\<lambda>srcId. \<not> isMinifiedSource s srcId) ids1
      in case chooseLoop s ids2 None None of
           Inl e \<Rightarrow> Inl e
         | Inr (Inl choice) \<Rightarrow> Inr choice
         | Inr (Inr (generatedId, originalId)) \<Rightarrow>
             if \<not> truthy_str generatedId then
               (if \<not> truthy_str originalId then Inl AssertionFailed
                else Inr \<lparr> choice_sourceId = the originalId, choice_alternateId = None \<rparr>)
             else if \<not> truthy_str originalId then
               Inr \<lparr> choice_sourceId = the generatedId, choice_alternateId = None \<rparr>
             else if the generatedId \<in> preferredGeneratedSources s then
               Inr \<lparr> choice_sourceId = the generatedId, choice_alternateId = originalId \<rparr>
             else Inr \<lparr> choice_sourceId = the originalId, choice_alternateId = generatedId \<rparr>)"

subsection \<open>Grouping sources\<close>

text \<open>
  The loop of \<open>_getAlternateSourceIds\<close>. \<open>rv\<close> lists the set in insertion order; the
  worklist is a stack with its top at the head, so pushing a list in order puts it
  reversed in front.
\<close>

function getAlternateLoop ::
  "ThreadFront \<Rightarrow> SourceId list \<Rightarrow> SourceId list \<Rightarrow> error + SourceId list" where
  "getAlternateLoop s rv [] = Inr rv"
| "getAlternateLoop s rv (srcId # worklist) =
     (if srcId \<in> set rv then getAlternateLoop s rv worklist
      else case map_of (sources s) srcId of
        None \<Rightarrow> Inl AssertionFailed
      | Some info \<Rightarrow>
          getAlternateLoop s (rv @ [srcId])
            (rev (originalSources s srcId)
             @ rev (case generatedSourceIds info of None \<Rightarrow> [] | Some ids \<Rightarrow> ids)
             @ worklist))"
  by pat_completeness auto
termination
proof (relation "(\<lambda>(s, rv, worklist). card (fst ` set (sources s) - set rv))
                   <*mlex*> measure (\<lambda>(s, rv, worklist). length worklist)")
  show "wf ((\<lambda>(s, rv, worklist). card (fst ` set (sources s) - set rv))
              <*mlex*> measure (\<lambda>(s, rv, worklist). length worklist))"
    by (simp add: wf_mlex)
next
  fix s :: ThreadFront and rv :: "SourceId list" and srcId worklist
  assume "srcId \<in> set rv"
  then show "((s, rv, worklist), (s, rv, srcId # worklist))
       \<in> (\<lambda>(s, rv, worklist). card (fst ` set (sources s) - set rv))
            <*mlex*> measure (\<lambda>(s, rv, worklist). length worklist)"
    by (simp add: mlex_iff)
next
  fix s :: ThreadFront and rv :: "SourceId list" and srcId worklist info
  assume new: "srcId \<notin> set rv" and reg: "map_of (sources s) srcId = Some info"
  from reg have "srcId \<in> fst ` set (sources s)"
    by (metis domI dom_map_of_conv_image_fst)
  with new have "fst ` set (sources s) - set (rv @ [srcId])
      \<subset> fst ` set (sources s) - set rv"
    by auto
  then have "card (fst ` set (sources s) - set (rv @ [srcId]))
      < card (fst ` set (sources s) - set rv)"
    by (intro psubset_card_mono) simp_all
  then show "((s, rv @ [srcId],
        rev (originalSources s srcId)
        @ rev (case generatedSourceIds info of None \<Rightarrow> [] | Some ids \<Rightarrow> ids) @ worklist),
       (s, rv, srcId # worklist))
       \<in> (\<lambda>(s, rv, worklist). card (fst ` set (sources s) - set rv))
            <*mlex*> measure (\<lambda>(s, rv, worklist). length worklist)"
    by (simp add: mlex_iff)
qed

definition getAlternateSourceIds :: "ThreadFront \<Rightarrow> SourceId \<Rightarrow> error + SourceId list" where
  "getAlternateSourceIds s srcId = getAlternateLoop s [] [srcId]"

lemma getAlternateLoop_keeps:
  "getAlternateLoop s rv worklist = Inr res \<Longrightarrow> set rv \<subseteq> set res"
proof (induction s rv worklist rule: getAlternateLoop.induct)
  case (1 s rv)
  then show ?case by simp
next
  case (2 s rv srcId worklist)
  show ?case
  proof (cases "srcId \<in> set rv")
    case True
    with 2 show ?thesis by simp
  next
    case False
    with "2.prems" obtain info where reg: "map_of (sources s) srcId = Some info"
      by (cases "map_of (sources s) srcId") simp_all
    with False "2.prems" "2.IH"(2) have "set (rv @ [srcId]) \<subseteq> set res" by simp
    then show ?thesis by simp
  qed
qed

lemma getAlternateLoop_visits:
  "getAlternateLoop s rv (srcId # worklist) = Inr res \<Longrightarrow> srcId \<in> set res"
proof (cases "srcId \<in> set rv")
  case True
  assume "getAlternateLoop s rv (srcId # worklist) = Inr res"
  then have "set rv \<subseteq> set res" by (rule getAlternateLoop_keeps)
  with True show ?thesis by blast
next
  case False
  assume run: "getAlternateLoop s rv (srcId # worklist) = Inr res"
  with False obtain info where reg: "map_of (sources s) srcId = Some info"
    by (cases "map_of (sources s) srcId") simp_all
  with False run have "getAlternateLoop s (rv @ [srcId])
      (rev (originalSources s srcId)
       @ rev (case generatedSourceIds info of None \<Rightarrow> [] | Some ids \<Rightarrow> ids)
       @ worklist) = Inr res"
    by simp
  then have "set (rv @ [srcId]) \<subseteq> set res" by (rule getAlternateLoop_keeps)
  then show ?thesis by simp
qed

text \<open>
  The loop of \<open>_groupSourceIds\<close>: the group of the first id is what
  \<open>_getAlternateSourceIds\<close> finds for it among the ids still to be grouped, and the
  loop goes on with the ids outside the group.
\<close>

function groupSourceIds :: "ThreadFront \<Rightarrow> SourceId list \<Rightarrow> error + SourceId list list" where
  "groupSourceIds s [] = Inr []"
| "groupSourceIds s (srcId # ids) =
     (case getAlternateSourceIds s srcId of
        Inl e \<Rightarrow> Inl e
      | Inr alternates \<Rightarrow>
          (let group = filter (\<lambda>x. x \<in> set (srcId # ids)) alternates
           in case groupSourceIds s (filter (\<lambda>x. x \<notin> set group) (srcId # ids)) of
                Inl e \<Rightarrow> Inl e
              | Inr groups \<Rightarrow> Inr (group # groups)))"
  by pat_completeness auto
termination
proof (relation "measure (\<lambda>(s, sourceIds). length sourceIds)")
  show "wf (measure (\<lambda>(s, sourceIds). length sourceIds))" by simp
next
  fix s :: ThreadFront and srcId :: SourceId and ids alternates group
  assume alt: "getAlternateSourceIds s srcId = Inr alternates"
    and group: "group = filter (\<lambda>x. x \<in> set (srcId # ids)) alternates"
  from alt have "srcId \<in> set alternates"
    unfolding getAlternateSourceIds_def by (rule getAlternateLoop_visits)
  with group have "srcId \<in> set group" by simp
  then have "length (filter (\<lambda>x. x \<notin> set group) (srcId # ids)) < length (srcId # ids)"
    by (simp add: le_imp_less_Suc)
  then show "((s, filter (\<lambda>x. x \<notin> set group) (srcId # ids)), (s, srcId # ids))
       \<in> measure (\<lambda>(s, sourceIds). length sourceIds)"
    by simp
qed

declare groupSourceIds.simps [simp del]

text \<open>\<open>_chooseSourceIdList\<close>: the choice of every group, or the first failure.\<close>

fun chooseAll :: "ThreadFront \<Rightarrow> SourceId list list \<Rightarrow> error + SourceChoice list" where
  "chooseAll s [] = Inr []"
| "chooseAll s (ids # groups) =
     (case chooseSourceId s ids of
        Inl e \<Rightarrow> Inl e
      | Inr choice \<Rightarrow>
          (case chooseAll s groups of Inl e \<Rightarrow> Inl e | Inr choices \<Rightarrow> Inr (choice # choices)))"

definition chooseSourceIdList :: "ThreadFront \<Rightarrow> SourceId list \<Rightarrow> error + SourceChoice list" where
  "chooseSourceIdList s sourceIds =
     (case groupSourceIds s sourceIds of
        Inl e \<Rightarrow> Inl e
      | Inr groups \<Rightarrow> chooseAll s groups)"

subsection \<open>Auxiliary notions\<close>

text \<open>
  Two states are related by \<open>logs_only\<close> when the second differs from the first in
  the logs of requests and waiting branches at most.
\<close>

definition logs_only :: "ThreadFront \<Rightarrow> ThreadFront \<Rightarrow> bool" where
  "logs_only s s' \<longleftrightarrow> s' = s\<lparr> sent := sent s', spawned := spawned s' \<rparr>"

text \<open>A sequence of \<open>timeWarp\<close> calls, each given by its four arguments.\<close>

definition timeWarps ::
  "(ExecutionPoint \<times> TimeStamp \<times> bool option \<times> bool option) list \<Rightarrow> ThreadFront \<Rightarrow> ThreadFront"
  where
  "timeWarps calls s =
     foldl (\<lambda>s' (point, time, hasFrames, force). timeWarp point time hasFrames force s') s calls"

text \<open>
  The destination of a warp in the words of the specification: the arguments of the
  call, or the substitution of the warp callback when \<open>force\<close> is not set and the
  callback returns one.
\<close>

definition warp_destination ::
  "ThreadFront \<Rightarrow> ExecutionPoint \<Rightarrow> TimeStamp \<Rightarrow> bool option \<Rightarrow> bool option \<Rightarrow> WarpTarget" where
  "warp_destination s point time hasFrames force =
     (case warpCallback s of
        None \<Rightarrow> \<lparr> wt_point = point, wt_time = time, wt_hasFrames = hasFrames \<rparr>
      | Some callback \<Rightarrow>
          if truthy_bool force
          then \<lparr> wt_point = point, wt_time = time, wt_hasFrames = hasFrames \<rparr>
          else (case callback point time hasFrames of
                  None \<Rightarrow> \<lparr> wt_point = point, wt_time = time, wt_hasFrames = hasFrames \<rparr>
                | Some substitution \<Rightarrow> substitution))"

text \<open>
  The state a mutation's callback leaves behind when it settles: its continuation has
  run when the callback was waiting and the service fulfilled the request, and nothing
  has changed otherwise.
\<close>

definition after_callback ::
  "Mutation \<Rightarrow> MutationStart \<Rightarrow> Outcome \<Rightarrow> ThreadFront \<Rightarrow> ThreadFront" where
  "after_callback m st outcome s =
     (case st of
        MutationFailed e \<Rightarrow> s
      | MutationWaiting \<Rightarrow> (case mutation_resume m outcome s of Inl e \<Rightarrow> s | Inr s' \<Rightarrow> s'))"




text \<open>
  The generated/original adjacency that \<open>_getAlternateSourceIds\<close> walks: from an id
  to the generated ids of its entry and to its original ids.
\<close>

definition generatedOf :: "ThreadFront \<Rightarrow> SourceId \<Rightarrow> SourceId list" where
  "generatedOf s x =
     (case map_of (sources s) x of
        None \<Rightarrow> []
      | Some info \<Rightarrow> (case generatedSourceIds info of None \<Rightarrow> [] | Some ids \<Rightarrow> ids))"

definition neighbours :: "ThreadFront \<Rightarrow> SourceId \<Rightarrow> SourceId list" where
  "neighbours s x = generatedOf s x @ originalSources s x"

definition adjacent :: "ThreadFront \<Rightarrow> (SourceId \<times> SourceId) set" where
  "adjacent s = {(x, y). y \<in> set (neighbours s x)}"

text \<open>
  The ids reachable from a list of ids are registered when every id that the adjacency
  leads to from an id of the list, in any number of steps, has an entry. A set of ids
  is closed when the adjacency does not lead out of it and all its ids are registered.
  A registry is reversed when, among registered ids, \<open>originalSources\<close> holds
  exactly the reverse edges of \<open>generatedSourceIds\<close>.
\<close>

definition registered :: "ThreadFront \<Rightarrow> SourceId \<Rightarrow> bool" where
  "registered s x = (map_of (sources s) x \<noteq> None)"

definition reachable_registered :: "ThreadFront \<Rightarrow> SourceId list \<Rightarrow> bool" where
  "reachable_registered s ids = (\<forall>y \<in> (adjacent s)\<^sup>* `` set ids. registered s y)"

definition closed_in :: "ThreadFront \<Rightarrow> SourceId set \<Rightarrow> bool" where
  "closed_in s C = (adjacent s `` C \<subseteq> C \<and> (\<forall>x \<in> C. registered s x))"

definition registry_reversed :: "ThreadFront \<Rightarrow> bool" where
  "registry_reversed s =
     list_all (\<lambda>x. list_all (\<lambda>y. x \<in> set (originalSources s y)) (generatedOf s x)
                  \<and> list_all (\<lambda>y. x \<in> set (generatedOf s y)) (originalSources s x))
       (map fst (sources s))"

text \<open>
  Whether the loop of \<open>_chooseSourceId\<close> takes an entry for a generated source: its
  kind, or for a pretty-printed entry the kind of its registered minified twin, is
  neither sourceMapped nor prettyPrinted.
\<close>

definition counts_as_generated :: "ThreadFront \<Rightarrow> Source \<Rightarrow> bool" where
  "counts_as_generated s info =
     (if kind info = PrettyPrinted
      then (case minifiedInfo s info of
              None \<Rightarrow> False
            | Some m \<Rightarrow> kind m \<noteq> PrettyPrinted \<and> kind m \<noteq> SourceMapped)
      else kind info \<noteq> SourceMapped)"

text \<open>
  \<open>originalSources\<close> mirrors \<open>generatedSourceIds\<close> when it holds the reverse
  of every edge and nothing else.
\<close>

definition registry_mirror :: "ThreadFront \<Rightarrow> bool" where
  "registry_mirror s =
     (\<forall>x y. y \<in> set (generatedOf s x) \<longleftrightarrow> x \<in> set (originalSources s y))"

subsection \<open>Example states\<close>

text \<open>
  A coordinator with a session; a target with a frame; a coordinator with one
  invalidating command in flight and one waiter; a warp callback that moves point 7 to
  point 8.
\<close>

definition session :: ThreadFront where
  "session = setSessionId ''session'' initial"

definition target20 :: PauseDescription where
  "target20 = \<lparr> pd_point = ''20'', pd_time = 200, pd_frame = Some [] \<rparr>"

text \<open>A second answer for the same lookup: another object, told apart by its frame.\<close>

definition target20b :: PauseDescription where
  "target20b = \<lparr> pd_point = ''20'', pd_time = 200,
     pd_frame = Some [\<lparr> loc_sourceId = ''1'', loc_line = 1, loc_column = 0 \<rparr>] \<rparr>"

definition session_pending :: ThreadFront where
  "session_pending =
     snd (waitForInvalidateCommandsToFinish 7
            (snd (invalidateResumeTargets_begin (Blackbox ''a'') session)))"

definition snap_callback ::
  "ExecutionPoint \<Rightarrow> TimeStamp \<Rightarrow> bool option \<Rightarrow> WarpTarget option" where
  "snap_callback point time hasFrames =
     (if point = ''7'' then Some \<lparr> wt_point = ''8'', wt_time = 80, wt_hasFrames = Some True \<rparr>
      else None)"

text \<open>
  Registries built by the listener: a generated source G with its original O; the same
  with G pretty-printed and its twin unknown; with G pretty-printed and its twin M a
  script; with G pretty-printed and its twin M source-mapped; with a pretty-printed P
  of G beside O; with a pretty-printed P of O; with the empty string as the id of the
  generated source; an original A of X with an unrelated B; the same beside a source Z
  whose generated source W is not announced yet; and A alone, announced before X.
\<close>

definition source_of :: "SourceKind \<Rightarrow> SourceId list option \<Rightarrow> Source" where
  "source_of k gens = \<lparr> kind = k, url = None, generatedSourceIds = gens \<rparr>"

definition registry_pair :: ThreadFront where
  "registry_pair =
     newSource ''O'' (source_of SourceMapped (Some [''G'']))
       (newSource ''G'' (source_of ScriptSource None) initial)"

definition registry_pretty :: ThreadFront where
  "registry_pretty =
     newSource ''O'' (source_of SourceMapped (Some [''G'']))
       (newSource ''G'' (source_of PrettyPrinted None) initial)"

definition registry_minified :: ThreadFront where
  "registry_minified =
     newSource ''P'' (source_of PrettyPrinted (Some [''G'']))
       (newSource ''O'' (source_of SourceMapped (Some [''G'']))
          (newSource ''G'' (source_of ScriptSource None) initial))"

definition registry_twin :: ThreadFront where
  "registry_twin =
     newSource ''O'' (source_of SourceMapped (Some [''G'']))
       (newSource ''G'' (source_of PrettyPrinted (Some [''M'']))
          (newSource ''M'' (source_of ScriptSource None) initial))"

definition registry_mapped_twin :: ThreadFront where
  "registry_mapped_twin =
     newSource ''O'' (source_of SourceMapped (Some [''G'']))
       (newSource ''G'' (source_of PrettyPrinted (Some [''M'']))
          (newSource ''M'' (source_of SourceMapped None) initial))"

definition registry_minified_original :: ThreadFront where
  "registry_minified_original =
     newSource ''P'' (source_of PrettyPrinted (Some [''O'']))
       (newSource ''O'' (source_of SourceMapped (Some [''G'']))
          (newSource ''G'' (source_of ScriptSource None) initial))"

definition registry_empty_id :: ThreadFront where
  "registry_empty_id =
     newSource ''O'' (source_of SourceMapped (Some [[]]))
       (newSource [] (source_of ScriptSource None) initial)"

definition registry_abx :: ThreadFront where
  "registry_abx =
     newSource ''B'' (source_of ScriptSource None)
       (newSource ''X'' (source_of ScriptSource None)
          (newSource ''A'' (source_of SourceMapped (Some [''X''])) initial))"

definition registry_far :: ThreadFront where
  "registry_far = newSource ''Z'' (source_of SourceMapped (Some [''W''])) registry_abx"

definition registry_early :: ThreadFront where
  "registry_early = newSource ''A'' (source_of SourceMapped (Some [''X''])) initial"

section \<open>Properties\<close>

subsection \<open>What each operation leaves unchanged\<close>

lemma logs_onlyI: "s' = s\<lparr> sent := X, spawned := Y \<rparr> \<Longrightarrow> logs_only s s'"
  by (simp add: logs_only_def)

lemma logs_only_refl: "logs_only s s"
  by (simp add: logs_only_def)

lemma logs_only_trans:
  assumes "logs_only s s'" and "logs_only s' s''"
  shows "logs_only s s''"
proof -
  obtain X Y where 1: "s' = s\<lparr> sent := X, spawned := Y \<rparr>"
    using assms(1) unfolding logs_only_def by blast
  obtain X' Y' where 2: "s'' = s'\<lparr> sent := X', spawned := Y' \<rparr>"
    using assms(2) unfolding logs_only_def by blast
  show ?thesis
    by (rule logs_onlyI[where X=X' and Y=Y']) (simp add: 1 2)
qed

lemma logs_only_fields:
  assumes "logs_only s s'"
  shows "currentPoint s' = currentPoint s" "currentTime s' = currentTime s"
    "currentPointHasFrames s' = currentPointHasFrames s" "currentPause s' = currentPause s"
    "asyncPauses s' = asyncPauses s" "sessionId s' = sessionId s" "sources s' = sources s"
    "originalSources s' = originalSources s"
    "preferredGeneratedSources s' = preferredGeneratedSources s"
    "resumeTargets s' = resumeTargets s" "resumeTargetEpoch s' = resumeTargetEpoch s"
    "numPendingInvalidateCommands s' = numPendingInvalidateCommands s"
    "invalidateCommandWaiters s' = invalidateCommandWaiters s" "allPauses s' = allPauses s"
    "breakpoints s' = breakpoints s" "warpCallback s' = warpCallback s"
    "emitted s' = emitted s" "released s' = released s"
proof -
  obtain X Y where 1: "s' = s\<lparr> sent := X, spawned := Y \<rparr>"
    using assms unfolding logs_only_def by blast
  show "currentPoint s' = currentPoint s" "currentTime s' = currentTime s"
    "currentPointHasFrames s' = currentPointHasFrames s" "currentPause s' = currentPause s"
    "asyncPauses s' = asyncPauses s" "sessionId s' = sessionId s" "sources s' = sources s"
    "originalSources s' = originalSources s"
    "preferredGeneratedSources s' = preferredGeneratedSources s"
    "resumeTargets s' = resumeTargets s" "resumeTargetEpoch s' = resumeTargetEpoch s"
    "numPendingInvalidateCommands s' = numPendingInvalidateCommands s"
    "invalidateCommandWaiters s' = invalidateCommandWaiters s" "allPauses s' = allPauses s"
    "breakpoints s' = breakpoints s" "warpCallback s' = warpCallback s"
    "emitted s' = emitted s" "released s' = released s"
    by (simp_all add: 1)
qed

lemma findResumeTarget_begin_logs: "logs_only s (snd (findResumeTarget_begin point command s))"
  by (simp add: findResumeTarget_begin_def logs_only_def split: option.split)

lemma precache_branch_logs: "logs_only s (precache_branch point epoch start command transitive s)"
proof -
  obtain st s1 where b: "findResumeTarget_begin start command s = (st, s1)"
    by (cases "findResumeTarget_begin start command s")
  have "logs_only s s1" using findResumeTarget_begin_logs[of s start command] b by simp
  moreover have "logs_only s1 (precache_branch point epoch start command transitive s)"
    by (simp add: precache_branch_def b logs_only_def)
  ultimately show ?thesis by (rule logs_only_trans)
qed

lemma foldl_logs_only:
  assumes "\<And>s x. logs_only s (f s x)"
  shows "logs_only s (foldl f s xs)"
proof (induction xs arbitrary: s)
  case Nil
  show ?case by (simp add: logs_only_refl)
next
  case (Cons x xs)
  have "logs_only s (f s x)" by (rule assms)
  moreover have "logs_only (f s x) (foldl f (f s x) xs)" by (rule Cons.IH)
  ultimately show ?case using logs_only_trans by simp
qed

lemma precacheResumeTargets_logs: "logs_only s (precacheResumeTargets s)"
proof (cases "currentPointHasFrames s")
  case False
  then show ?thesis by (simp add: precacheResumeTargets_def logs_only_refl)
next
  case True
  have "logs_only s (foldl (\<lambda>s' (command, transitive).
           precache_branch (currentPoint s) (resumeTargetEpoch s) (currentPoint s) command transitive s')
              s stepCommands)"
    by (rule foldl_logs_only) (simp add: precache_branch_logs split: prod.split)
  with True show ?thesis by (simp add: precacheResumeTargets_def Let_def)
qed

lemmas precache_fields = logs_only_fields[OF precacheResumeTargets_logs]

lemma ensurePause_fields:
  assumes "ensurePause point time s = Inr (pause, s')"
  shows "resumeTargets s' = resumeTargets s" "resumeTargetEpoch s' = resumeTargetEpoch s"
    "sessionId s' = sessionId s" "currentPoint s' = currentPoint s"
    "numPendingInvalidateCommands s' = numPendingInvalidateCommands s"
    "emitted s' = emitted s"
  using assms by (auto simp: ensurePause_def Let_def split: if_splits option.splits)

lemma timeWarp_fields:
  "resumeTargets (timeWarp point time hasFrames force s) = resumeTargets s"
  "resumeTargetEpoch (timeWarp point time hasFrames force s) = resumeTargetEpoch s"
  "sessionId (timeWarp point time hasFrames force s) = sessionId s"
  "warpCallback (timeWarp point time hasFrames force s) = warpCallback s"
  "numPendingInvalidateCommands (timeWarp point time hasFrames force s)
     = numPendingInvalidateCommands s"
  by (simp_all add: timeWarp_def Let_def precache_fields emit_def)

lemma timeWarpToPause_fields:
  assumes "timeWarpToPause pause s = Inr s'"
  shows "resumeTargets s' = resumeTargets s" "resumeTargetEpoch s' = resumeTargetEpoch s"
    "sessionId s' = sessionId s"
  using assms
  by (auto simp: timeWarpToPause_def Let_def precache_fields emit_def split: if_splits)

lemma getFrames_fields:
  "resumeTargets (snd (getFrames s)) = resumeTargets s"
  "resumeTargetEpoch (snd (getFrames s)) = resumeTargetEpoch s"
  "sessionId (snd (getFrames s)) = sessionId s"
  by (auto simp: getFrames_def ensureCurrentPause_def ensurePause_def Let_def
      split: if_splits option.splits sum.splits)

lemmas findResumeTarget_begin_fields = logs_only_fields[OF findResumeTarget_begin_logs]

lemma findResumeTarget_resolve_fields:
  "resumeTargetEpoch (snd (findResumeTarget_resolve lk target s)) = resumeTargetEpoch s"
  "sessionId (snd (findResumeTarget_resolve lk target s)) = sessionId s"
  "currentPoint (snd (findResumeTarget_resolve lk target s)) = currentPoint s"
  "key \<noteq> lk_key lk \<Longrightarrow>
     resumeTargets (snd (findResumeTarget_resolve lk target s)) key = resumeTargets s key"
  by (simp_all add: findResumeTarget_resolve_def)

lemma findResumeTarget_finish_fields:
  "resumeTargetEpoch (snd (findResumeTarget_finish st answer s)) = resumeTargetEpoch s"
  "sessionId (snd (findResumeTarget_finish st answer s)) = sessionId s"
  "(case st of Awaiting lk \<Rightarrow> lk_key lk \<noteq> key | _ \<Rightarrow> True) \<Longrightarrow>
     resumeTargets (snd (findResumeTarget_finish st answer s)) key = resumeTargets s key"
  by (auto simp: findResumeTarget_finish_def findResumeTarget_resolve_def
      split: FindStart.splits)

lemma precache_branches_logs:
  "logs_only s (foldl (\<lambda>s' command. precache_branch point epoch start command [] s') s commands)"
  by (rule foldl_logs_only) (rule precache_branch_logs)

lemmas precache_branches_fields = logs_only_fields[OF precache_branches_logs]

lemma precache_resume_after_finish:
  "resumeTargets (precache_resume task answer s)
     = resumeTargets (snd (findResumeTarget_finish (pt_lookup task) answer s))"
  "resumeTargetEpoch (precache_resume task answer s)
     = resumeTargetEpoch (snd (findResumeTarget_finish (pt_lookup task) answer s))"
  "sessionId (precache_resume task answer s)
     = sessionId (snd (findResumeTarget_finish (pt_lookup task) answer s))"
  by (auto simp: precache_resume_def precache_branches_fields ensurePause_fields
      split: prod.splits sum.splits)

lemma precache_resume_fields:
  "resumeTargetEpoch (precache_resume task answer s) = resumeTargetEpoch s"
  "sessionId (precache_resume task answer s) = sessionId s"
  "(case pt_lookup task of Awaiting lk \<Rightarrow> lk_key lk \<noteq> key | _ \<Rightarrow> True) \<Longrightarrow>
     resumeTargets (precache_resume task answer s) key = resumeTargets s key"
  by (simp_all add: precache_resume_after_finish findResumeTarget_finish_fields)

lemma mutation_begin_logs: "logs_only s (snd (mutation_begin m s))"
  by (simp add: mutation_begin_def logs_only_def)

lemmas mutation_begin_fields = logs_only_fields[OF mutation_begin_logs]

lemma invalidateResumeTargets_begin_fields:
  "resumeTargets (snd (invalidateResumeTargets_begin m s)) = Map.empty"
  "resumeTargetEpoch (snd (invalidateResumeTargets_begin m s)) = resumeTargetEpoch s + 1"
  "numPendingInvalidateCommands (snd (invalidateResumeTargets_begin m s))
     = numPendingInvalidateCommands s + 1"
  "sessionId (snd (invalidateResumeTargets_begin m s)) = sessionId s"
  "breakpoints (snd (invalidateResumeTargets_begin m s)) = breakpoints s"
  by (simp_all add: invalidateResumeTargets_begin_def mutation_begin_fields)

lemma invalidateResumeTargets_begin_core:
  "currentPoint (snd (invalidateResumeTargets_begin m s)) = currentPoint s"
  "currentTime (snd (invalidateResumeTargets_begin m s)) = currentTime s"
  "currentPointHasFrames (snd (invalidateResumeTargets_begin m s)) = currentPointHasFrames s"
  "currentPause (snd (invalidateResumeTargets_begin m s)) = currentPause s"
  "asyncPauses (snd (invalidateResumeTargets_begin m s)) = asyncPauses s"
  "allPauses (snd (invalidateResumeTargets_begin m s)) = allPauses s"
  "emitted (snd (invalidateResumeTargets_begin m s)) = emitted s"
  by (simp_all add: invalidateResumeTargets_begin_def mutation_begin_fields)

lemma invalidate_finally_fields:
  "resumeTargets (invalidate_finally s) = resumeTargets s"
  "resumeTargetEpoch (invalidate_finally s) = resumeTargetEpoch s"
  "sessionId (invalidate_finally s) = sessionId s"
  "breakpoints (invalidate_finally s) = breakpoints s"
  "numPendingInvalidateCommands (invalidate_finally s) = numPendingInvalidateCommands s - 1"
  by (simp_all add: invalidate_finally_def Let_def precache_fields)

lemma invalidate_finally_core:
  "currentPoint (invalidate_finally s) = currentPoint s"
  "currentTime (invalidate_finally s) = currentTime s"
  "currentPointHasFrames (invalidate_finally s) = currentPointHasFrames s"
  "currentPause (invalidate_finally s) = currentPause s"
  "asyncPauses (invalidate_finally s) = asyncPauses s"
  "allPauses (invalidate_finally s) = allPauses s"
  "emitted (invalidate_finally s) = emitted s"
  by (simp_all add: invalidate_finally_def Let_def precache_fields)

lemma mutation_resume_fields:
  assumes "mutation_resume m outcome s = Inr s'"
  shows "resumeTargets s' = resumeTargets s" "resumeTargetEpoch s' = resumeTargetEpoch s"
    "sessionId s' = sessionId s"
    "numPendingInvalidateCommands s' = numPendingInvalidateCommands s"
    "invalidateCommandWaiters s' = invalidateCommandWaiters s"
    "released s' = released s" "sent s' = sent s" "spawned s' = spawned s"
  using assms by (cases m; cases outcome; auto split: if_splits)+

lemma invalidateResumeTargets_end_fields:
  "resumeTargets (snd (invalidateResumeTargets_end m st outcome s)) = resumeTargets s"
  "resumeTargetEpoch (snd (invalidateResumeTargets_end m st outcome s)) = resumeTargetEpoch s"
  "sessionId (snd (invalidateResumeTargets_end m st outcome s)) = sessionId s"
  "numPendingInvalidateCommands (snd (invalidateResumeTargets_end m st outcome s))
     = numPendingInvalidateCommands s - 1"
  by (auto simp: invalidateResumeTargets_end_def invalidate_finally_fields
      mutation_resume_fields split: MutationStart.splits sum.splits)

lemma waitForInvalidate_fields:
  "resumeTargets (snd (waitForInvalidateCommandsToFinish w s)) = resumeTargets s"
  "resumeTargetEpoch (snd (waitForInvalidateCommandsToFinish w s)) = resumeTargetEpoch s"
  "sessionId (snd (waitForInvalidateCommandsToFinish w s)) = sessionId s"
  by (simp_all add: waitForInvalidateCommandsToFinish_def)

subsection \<open>Interleaved turns\<close>

text \<open>
  No turn changes the session id; the epoch goes up by one with every turn that begins
  an invalidation and with no other; a cache entry is kept by every turn that is not
  an invalidation and not the resolution of a lookup of the same key.
\<close>

lemma step_sessionId: "sessionId (step a s) = sessionId s"
  by (cases a)
    (simp_all add: timeWarp_fields timeWarpToPause_fields getFrames_fields
      findResumeTarget_begin_fields findResumeTarget_resolve_fields precache_resume_fields
      invalidateResumeTargets_begin_fields invalidateResumeTargets_end_fields
      waitForInvalidate_fields split: sum.splits)

lemma step_epoch:
  "resumeTargetEpoch (step a s) = resumeTargetEpoch s + (if invalidates a then 1 else 0)"
  by (cases a)
    (simp_all add: timeWarp_fields timeWarpToPause_fields getFrames_fields
      findResumeTarget_begin_fields findResumeTarget_resolve_fields precache_resume_fields
      invalidateResumeTargets_begin_fields invalidateResumeTargets_end_fields
      waitForInvalidate_fields split: sum.splits)

lemma step_keeps_key:
  "\<not> writes_key key a \<Longrightarrow> resumeTargets (step a s) key = resumeTargets s key"
  by (cases a)
    (simp_all add: timeWarp_fields timeWarpToPause_fields getFrames_fields
      findResumeTarget_begin_fields findResumeTarget_resolve_fields precache_resume_fields
      invalidateResumeTargets_begin_fields invalidateResumeTargets_end_fields
      waitForInvalidate_fields split: sum.splits FindStart.splits)

lemma run_Nil: "run [] s = s"
  by (simp add: run_def)

lemma run_Cons: "run (a # actions) s = run actions (step a s)"
  by (simp add: run_def)

lemma run_sessionId: "sessionId (run actions s) = sessionId s"
  by (induction actions arbitrary: s) (simp_all add: run_Nil run_Cons step_sessionId)

lemma run_epoch:
  "resumeTargetEpoch (run actions s)
     = resumeTargetEpoch s + int (length (filter invalidates actions))"
  by (induction actions arbitrary: s) (simp_all add: run_Nil run_Cons step_epoch)

lemma run_keeps_key:
  "\<not> list_ex (writes_key key) actions \<Longrightarrow>
     resumeTargets (run actions s) key = resumeTargets s key"
  by (induction actions arbitrary: s) (simp_all add: run_Nil run_Cons step_keeps_key)

lemma run_epoch_unchanged:
  "resumeTargetEpoch (run actions s) = resumeTargetEpoch s \<longleftrightarrow> \<not> list_ex invalidates actions"
proof -
  have "length (filter invalidates actions) = 0 \<longleftrightarrow> \<not> list_ex invalidates actions"
    by (simp add: list_ex_iff filter_empty_conv)
  then show ?thesis by (simp add: run_epoch)
qed

lemma findResumeTarget_begin_awaiting:
  assumes "findResumeTarget_begin point command s = (Awaiting lk, s1)"
  shows "lk_key lk = target_key point command" "lk_epoch lk = resumeTargetEpoch s1"
    "truthy_str (sessionId s1)" "resumeTargets s (target_key point command) = None"
  using assms by (auto simp: findResumeTarget_begin_def split: if_splits option.splits)

lemma session_fields:
  "sessionId session = Some ''session''" "numPendingInvalidateCommands session = 0"
  "currentPointHasFrames session = False" "invalidateCommandWaiters session = []"
  "released session = []" "resumeTargetEpoch session = 0" "breakpoints session = []"
  "emitted session = []" "warpCallback session = None"
  by (simp_all add: session_def setSessionId_def initial_def)

lemma session_pending_fields:
  "numPendingInvalidateCommands session_pending = 1"
  "invalidateCommandWaiters session_pending = [7]"
  "released session_pending = []"
  by (simp_all add: session_pending_def waitForInvalidateCommandsToFinish_def
      invalidateResumeTargets_begin_def mutation_begin_def session_fields truthy_str_def)

lemma begin_session:
  "findResumeTarget_begin ''10'' FindStepOverTarget session =
     (Awaiting \<lparr> lk_key = ''10:findStepOverTarget'', lk_epoch = 0 \<rparr>,
      session\<lparr> sent := [FindTargetReq FindStepOverTarget ''10'' ''session''] \<rparr>)"
  by (simp add: findResumeTarget_begin_def session_def setSessionId_def initial_def
      truthy_str_def target_key_def)

subsection \<open>Frames at a frameless position\<close>

text \<open>
  C10: when \<open>currentPointHasFrames\<close> is false, \<open>getFrames\<close> returns the empty array
  and leaves the coordinator as it was: no Pause is created or looked up, and no request
  is sent.
\<close>

theorem getFrames_frameless:
  "\<not> currentPointHasFrames s \<Longrightarrow> getFrames s = (NoFrames, s)"
  by (simp add: getFrames_def)

theorem getFrames_frameless_witness:
  "\<not> currentPointHasFrames session \<and> getFrames session = (NoFrames, session)"
  using getFrames_frameless[of session]
  by (simp add: session_def setSessionId_def initial_def)

subsection \<open>Warping\<close>

lemma timeWarp_position:
  "currentPoint (timeWarp point time hasFrames force s)
     = wt_point (warp_destination s point time hasFrames force)"
  "currentTime (timeWarp point time hasFrames force s)
     = wt_time (warp_destination s point time hasFrames force)"
  "currentPointHasFrames (timeWarp point time hasFrames force s)
     = truthy_bool (wt_hasFrames (warp_destination s point time hasFrames force))"
  "currentPause (timeWarp point time hasFrames force s) = None"
  "asyncPauses (timeWarp point time hasFrames force s) = []"
  by (simp_all add: timeWarp_def warp_destination_def Let_def precache_fields emit_def
      split: option.splits)

lemma timeWarp_emitted:
  "emitted (timeWarp point time hasFrames force s) = emitted s @
     [(Paused \<lparr> ev_point = wt_point (warp_destination s point time hasFrames force),
                ev_time = wt_time (warp_destination s point time hasFrames force),
                ev_hasFrames = wt_hasFrames (warp_destination s point time hasFrames force) \<rparr>,
       \<lparr> seen_point = wt_point (warp_destination s point time hasFrames force),
         seen_time = wt_time (warp_destination s point time hasFrames force),
         seen_hasFrames =
           truthy_bool (wt_hasFrames (warp_destination s point time hasFrames force)),
         seen_pause = None, seen_asyncPauses = [] \<rparr>)]"
  by (simp add: timeWarp_def warp_destination_def Let_def precache_fields emit_def snapshot_def
      split: option.splits)

lemma timeWarps_snoc:
  "timeWarps (calls @ [(point, time, hasFrames, force)]) s
     = timeWarp point time hasFrames force (timeWarps calls s)"
  by (simp add: timeWarps_def)

lemma timeWarps_warpCallback: "warpCallback (timeWarps calls s) = warpCallback s"
  by (induction calls arbitrary: s) (auto simp: timeWarps_def timeWarp_fields)

lemma warp_destination_cong:
  "warpCallback s' = warpCallback s \<Longrightarrow>
     warp_destination s' point time hasFrames force = warp_destination s point time hasFrames force"
  by (simp add: warp_destination_def)

text \<open>
  C3, as the claim states it, fails where \<open>hasFrames\<close> is left out: the coordinator's
  \<open>currentPointHasFrames\<close> is then \<open>false\<close>, not the absent argument, while the
  event carries the absent value.
\<close>

theorem timeWarp_hasFrames_counterexample:
  "currentPointHasFrames (timeWarp ''5'' 10 None None initial) = False \<and>
   Some (currentPointHasFrames (timeWarp ''5'' 10 None None initial)) \<noteq> (None :: bool option) \<and>
   map fst (emitted (timeWarp ''5'' 10 None None initial))
     = [Paused \<lparr> ev_point = ''5'', ev_time = 10, ev_hasFrames = None \<rparr>]"
  by (simp add: timeWarp_position timeWarp_emitted warp_destination_def initial_def
      truthy_bool_def)

text \<open>
  C3, amended: after any sequence of \<open>timeWarp\<close> calls, \<open>currentPoint\<close> and
  \<open>currentTime\<close> are the point and time of the last call's destination (its
  arguments, or the callback's substitution when \<open>force\<close> is not set),
  \<open>currentPointHasFrames\<close> is the truth value of the destination's \<open>hasFrames\<close>
  (false when it is absent), \<open>currentPause\<close> is null, \<open>asyncPauses\<close> is empty, and
  the last call has emitted one "paused" event carrying the destination's point, time
  and \<open>hasFrames\<close> as given, to listeners that find the state already updated.
\<close>

theorem timeWarp_most_recent:
  "currentPoint (timeWarps (calls @ [(point, time, hasFrames, force)]) s)
     = wt_point (warp_destination s point time hasFrames force) \<and>
   currentTime (timeWarps (calls @ [(point, time, hasFrames, force)]) s)
     = wt_time (warp_destination s point time hasFrames force) \<and>
   currentPointHasFrames (timeWarps (calls @ [(point, time, hasFrames, force)]) s)
     = truthy_bool (wt_hasFrames (warp_destination s point time hasFrames force)) \<and>
   currentPause (timeWarps (calls @ [(point, time, hasFrames, force)]) s) = None \<and>
   asyncPauses (timeWarps (calls @ [(point, time, hasFrames, force)]) s) = [] \<and>
   emitted (timeWarps (calls @ [(point, time, hasFrames, force)]) s)
     = emitted (timeWarps calls s) @
       [(Paused \<lparr> ev_point = wt_point (warp_destination s point time hasFrames force),
                  ev_time = wt_time (warp_destination s point time hasFrames force),
                  ev_hasFrames = wt_hasFrames (warp_destination s point time hasFrames force) \<rparr>,
         \<lparr> seen_point = wt_point (warp_destination s point time hasFrames force),
           seen_time = wt_time (warp_destination s point time hasFrames force),
           seen_hasFrames =
             truthy_bool (wt_hasFrames (warp_destination s point time hasFrames force)),
           seen_pause = None, seen_asyncPauses = [] \<rparr>)]"
proof -
  have "warp_destination (timeWarps calls s) point time hasFrames force
      = warp_destination s point time hasFrames force"
    by (rule warp_destination_cong) (rule timeWarps_warpCallback)
  then show ?thesis
    using timeWarp_position[of point time hasFrames force "timeWarps calls s"]
      timeWarp_emitted[of point time hasFrames force "timeWarps calls s"]
    by (simp add: timeWarps_snoc)
qed

theorem timeWarp_most_recent_witness:
  "currentPoint (timeWarps [(''5'', 50, None, None), (''7'', 70, Some False, None)]
      (session\<lparr> warpCallback := Some snap_callback \<rparr>)) = ''8'' \<and>
   currentTime (timeWarps [(''5'', 50, None, None), (''7'', 70, Some False, None)]
      (session\<lparr> warpCallback := Some snap_callback \<rparr>)) = 80 \<and>
   currentPointHasFrames (timeWarps [(''5'', 50, None, None), (''7'', 70, Some False, None)]
      (session\<lparr> warpCallback := Some snap_callback \<rparr>)) = True \<and>
   currentPoint (timeWarps [(''5'', 50, None, None), (''7'', 70, Some False, Some True)]
      (session\<lparr> warpCallback := Some snap_callback \<rparr>)) = ''7''"
  using timeWarp_most_recent[of "[(''5'', 50, None, None)]" "''7''" 70 "Some False" None
      "session\<lparr> warpCallback := Some snap_callback \<rparr>"]
    timeWarp_most_recent[of "[(''5'', 50, None, None)]" "''7''" 70 "Some False" "Some True"
      "session\<lparr> warpCallback := Some snap_callback \<rparr>"]
  by (simp add: warp_destination_def snap_callback_def truthy_bool_def)

subsection \<open>Warping to a Pause\<close>

text \<open>
  \<open>timeWarpToPause\<close> succeeds exactly when the Pause's point and time are truthy and
  its \<open>hasFrames\<close> is a boolean.
\<close>

lemma timeWarpToPause_truthy:
  assumes "truthy_str (pause_point pause)" and "truthy_num (pause_time pause)"
    and "pause_hasFrames pause \<noteq> None"
  shows "\<exists>s'. timeWarpToPause pause s = Inr s' \<and>
           currentPause s' = Some pause \<and>
           Some (currentPoint s') = pause_point pause \<and>
           Some (currentTime s') = pause_time pause \<and>
           Some (currentPointHasFrames s') = pause_hasFrames pause \<and>
           asyncPauses s' = [] \<and>
           map fst (emitted s') = map fst (emitted s) @
             [Paused \<lparr> ev_point = currentPoint s', ev_time = currentTime s',
                        ev_hasFrames = Some (currentPointHasFrames s') \<rparr>]"
  using assms
  by (auto simp: timeWarpToPause_def Let_def precache_fields emit_def truthy_str_def
      truthy_num_def split: option.splits)

lemma timeWarpToPause_falsy:
  "\<not> (truthy_str (pause_point pause) \<and> truthy_num (pause_time pause)
        \<and> pause_hasFrames pause \<noteq> None) \<Longrightarrow>
   timeWarpToPause pause s = Inl AssertionFailed"
  by (simp add: timeWarpToPause_def)

text \<open>
  C9: a Pause that carries a point, a time and a frame flag is accepted by
  \<open>timeWarpToPause\<close>. The code does not do so for the Pause of the recording's start,
  whose time is zero: the assertion reads the time for its truthiness and fails.
\<close>

theorem timeWarpToPause_time_zero:
  "timeWarpToPause \<lparr> pause_point = Some ''0'', pause_time = Some 0,
                     pause_hasFrames = Some False \<rparr> s = Inl AssertionFailed"
  by (simp add: timeWarpToPause_def truthy_num_def)

theorem timeWarpToPause_time_zero_witness:
  "timeWarpToPause \<lparr> pause_point = Some ''0'', pause_time = Some 0,
                     pause_hasFrames = Some False \<rparr> initial = Inl AssertionFailed"
  using timeWarpToPause_time_zero[of initial] by simp

subsection \<open>The resume-target cache\<close>

text \<open>
  C1: a lookup that misses the cache returns the resolved target to its caller in every
  case; when a turn between its start and its resolution began an invalidation, the
  cache is left as the resolution found it, and when none did, the target is stored
  under the key of the point and the command name.
\<close>

theorem findResumeTarget_epoch_guard:
  assumes "findResumeTarget_begin point command s = (Awaiting lk, s1)"
  shows "fst (findResumeTarget_resolve lk target (run actions s1)) = target \<and>
         resumeTargets (snd (findResumeTarget_resolve lk target (run actions s1))) =
           (if list_ex invalidates actions then resumeTargets (run actions s1)
            else (resumeTargets (run actions s1))(target_key point command \<mapsto> target))"
proof -
  have "lk_epoch lk = resumeTargetEpoch (run actions s1) \<longleftrightarrow> \<not> list_ex invalidates actions"
    using run_epoch_unchanged[of actions s1] findResumeTarget_begin_awaiting(2)[OF assms]
    by auto
  then show ?thesis
    by (simp add: findResumeTarget_resolve_def findResumeTarget_begin_awaiting(1)[OF assms])
qed

theorem findResumeTarget_epoch_guard_witness:
  "findResumeTarget_begin ''10'' FindStepOverTarget session =
     (Awaiting \<lparr> lk_key = ''10:findStepOverTarget'', lk_epoch = 0 \<rparr>,
      session\<lparr> sent := [FindTargetReq FindStepOverTarget ''10'' ''session''] \<rparr>) \<and>
   resumeTargets (snd (findResumeTarget_resolve
       \<lparr> lk_key = ''10:findStepOverTarget'', lk_epoch = 0 \<rparr> target20
       (run [InvalidateBegin (Blackbox ''a'')]
          (session\<lparr> sent := [FindTargetReq FindStepOverTarget ''10'' ''session''] \<rparr>))))
     ''10:findStepOverTarget'' = None \<and>
   resumeTargets (snd (findResumeTarget_resolve
       \<lparr> lk_key = ''10:findStepOverTarget'', lk_epoch = 0 \<rparr> target20
       (run [TimeWarp ''10'' 100 (Some True) None]
          (session\<lparr> sent := [FindTargetReq FindStepOverTarget ''10'' ''session''] \<rparr>))))
     ''10:findStepOverTarget'' = Some target20"
  using findResumeTarget_epoch_guard[OF begin_session, of target20
      "[InvalidateBegin (Blackbox ''a'')]"]
    findResumeTarget_epoch_guard[OF begin_session, of target20
      "[TimeWarp ''10'' 100 (Some True) None]"]
  by (simp add: begin_session run_def invalidateResumeTargets_begin_fields timeWarp_fields
      target_key_def)

lemma findResumeTarget_finish_present:
  "resumeTargets s key \<noteq> None \<Longrightarrow>
     resumeTargets (snd (findResumeTarget_finish st answer s)) key \<noteq> None"
  by (auto simp: findResumeTarget_finish_def findResumeTarget_resolve_def
      split: FindStart.splits)

lemma step_keeps_present:
  "\<not> invalidates a \<Longrightarrow> resumeTargets s key \<noteq> None \<Longrightarrow>
     resumeTargets (step a s) key \<noteq> None"
  by (cases a)
    (simp_all add: timeWarp_fields timeWarpToPause_fields getFrames_fields
      findResumeTarget_begin_fields findResumeTarget_resolve_def precache_resume_after_finish
      findResumeTarget_finish_present invalidateResumeTargets_end_fields
      waitForInvalidate_fields split: sum.splits)

lemma run_keeps_present:
  "\<not> list_ex invalidates actions \<Longrightarrow> resumeTargets s key \<noteq> None \<Longrightarrow>
     resumeTargets (run actions s) key \<noteq> None"
proof (induction actions arbitrary: s)
  case Nil
  then show ?case by (simp add: run_Nil)
next
  case (Cons a actions)
  from Cons.prems have "\<not> invalidates a" and rest: "\<not> list_ex invalidates actions"
    by simp_all
  then have "resumeTargets (step a s) key \<noteq> None"
    using Cons.prems(2) by (intro step_keeps_present)
  from Cons.IH[OF rest this] show ?case unfolding run_Cons .
qed

text \<open>
  C4, as the claim states it, fails when another lookup of the same key is in flight:
  two calls miss the cache one after the other, the first resolves and stores its
  target, the other resolves next and stores its own, and a later call, with no
  invalidation anywhere, returns the second object, not the one the first call stored.
\<close>

theorem findResumeTarget_cached_counterexample:
  "findResumeTarget_begin ''10'' FindStepOverTarget session =
     (Awaiting \<lparr> lk_key = ''10:findStepOverTarget'', lk_epoch = 0 \<rparr>,
      session\<lparr> sent := [FindTargetReq FindStepOverTarget ''10'' ''session''] \<rparr>) \<and>
   \<not> list_ex invalidates [FindBegin ''10'' FindStepOverTarget] \<and>
   \<not> list_ex invalidates
       [FindResolve \<lparr> lk_key = ''10:findStepOverTarget'', lk_epoch = 0 \<rparr> target20b] \<and>
   fst (findResumeTarget_begin ''10'' FindStepOverTarget
     (run [FindResolve \<lparr> lk_key = ''10:findStepOverTarget'', lk_epoch = 0 \<rparr> target20b]
        (snd (findResumeTarget_resolve
           \<lparr> lk_key = ''10:findStepOverTarget'', lk_epoch = 0 \<rparr> target20
           (run [FindBegin ''10'' FindStepOverTarget]
              (session\<lparr> sent := [FindTargetReq FindStepOverTarget ''10'' ''session''] \<rparr>))))))
     = Known target20b \<and>
   target20b \<noteq> target20"
  by (simp add: run_def findResumeTarget_begin_def findResumeTarget_resolve_def
      session_def setSessionId_def initial_def truthy_str_def target_key_def target20_def
      target20b_def)

text \<open>
  C4, amended: when a lookup has missed the cache and resolved, and no turn from its
  start to the second call began an invalidation, the second call for the same point
  and command returns the target then cached under the key without sending a request:
  the state, and with it the log of requests, is as it was. The cached target is the
  one the first call stored when no other lookup of the same key resolved in between.
\<close>

theorem findResumeTarget_cached:
  assumes "findResumeTarget_begin point command s = (Awaiting lk, s1)"
    and "\<not> list_ex invalidates during"
    and "\<not> list_ex invalidates between"
  shows "\<exists>cached.
           findResumeTarget_begin point command
             (run between (snd (findResumeTarget_resolve lk target (run during s1))))
           = (Known cached,
              run between (snd (findResumeTarget_resolve lk target (run during s1)))) \<and>
           (\<not> list_ex (writes_key (target_key point command)) between \<longrightarrow> cached = target)"
proof -
  let ?key = "target_key point command"
  let ?s3 = "snd (findResumeTarget_resolve lk target (run during s1))"
  have "lk_epoch lk = resumeTargetEpoch (run during s1)"
    using run_epoch_unchanged[of during s1] findResumeTarget_begin_awaiting(2)[OF assms(1)]
      assms(2)
    by auto
  then have stored: "resumeTargets ?s3 ?key = Some target"
    by (simp add: findResumeTarget_resolve_def findResumeTarget_begin_awaiting(1)[OF assms(1)])
  then have "resumeTargets (run between ?s3) ?key \<noteq> None"
    using run_keeps_present[OF assms(3), of ?s3 ?key] by simp
  then obtain cached where cached: "resumeTargets (run between ?s3) ?key = Some cached"
    by auto
  have "truthy_str (sessionId (run between ?s3))"
    using findResumeTarget_begin_awaiting(3)[OF assms(1)]
    by (simp add: run_sessionId findResumeTarget_resolve_fields)
  with cached have hit: "findResumeTarget_begin point command (run between ?s3)
      = (Known cached, run between ?s3)"
    by (simp add: findResumeTarget_begin_def)
  have "cached = target" if "\<not> list_ex (writes_key ?key) between"
    using run_keeps_key[OF that, of ?s3] stored cached by simp
  with hit show ?thesis by blast
qed

text \<open>
  The witness interleaves turns that matter: a warp to a point with frames, which
  starts pre-caching lookups, among them one of the same key, and a second call for
  the same key before the first resolves; then the resolution of a lookup of another
  key, a \<open>getFrames\<close> and a wait.
\<close>

theorem findResumeTarget_cached_witness:
  "findResumeTarget_begin ''10'' FindStepOverTarget session =
     (Awaiting \<lparr> lk_key = ''10:findStepOverTarget'', lk_epoch = 0 \<rparr>,
      session\<lparr> sent := [FindTargetReq FindStepOverTarget ''10'' ''session''] \<rparr>) \<and>
   \<not> list_ex invalidates
       [TimeWarp ''10'' 100 (Some True) None, FindBegin ''10'' FindStepOverTarget] \<and>
   \<not> list_ex invalidates
       [FindResolve \<lparr> lk_key = ''10:findStepInTarget'', lk_epoch = 0 \<rparr> target20b,
        GetFrames, WaitForInvalidate 1] \<and>
   \<not> list_ex (writes_key (target_key ''10'' FindStepOverTarget))
       [FindResolve \<lparr> lk_key = ''10:findStepInTarget'', lk_epoch = 0 \<rparr> target20b,
        GetFrames, WaitForInvalidate 1] \<and>
   findResumeTarget_begin ''10'' FindStepOverTarget
     (run [FindResolve \<lparr> lk_key = ''10:findStepInTarget'', lk_epoch = 0 \<rparr> target20b,
           GetFrames, WaitForInvalidate 1]
        (snd (findResumeTarget_resolve
           \<lparr> lk_key = ''10:findStepOverTarget'', lk_epoch = 0 \<rparr> target20
           (run [TimeWarp ''10'' 100 (Some True) None, FindBegin ''10'' FindStepOverTarget]
              (session\<lparr> sent := [FindTargetReq FindStepOverTarget ''10'' ''session''] \<rparr>)))))
   = (Known target20,
      run [FindResolve \<lparr> lk_key = ''10:findStepInTarget'', lk_epoch = 0 \<rparr> target20b,
           GetFrames, WaitForInvalidate 1]
        (snd (findResumeTarget_resolve
           \<lparr> lk_key = ''10:findStepOverTarget'', lk_epoch = 0 \<rparr> target20
           (run [TimeWarp ''10'' 100 (Some True) None, FindBegin ''10'' FindStepOverTarget]
              (session\<lparr> sent := [FindTargetReq FindStepOverTarget ''10'' ''session''] \<rparr>)))))"
proof -
  let ?during = "[TimeWarp ''10'' 100 (Some True) None, FindBegin ''10'' FindStepOverTarget]"
  let ?between = "[FindResolve \<lparr> lk_key = ''10:findStepInTarget'', lk_epoch = 0 \<rparr> target20b,
      GetFrames, WaitForInvalidate 1]"
  have d: "\<not> list_ex invalidates ?during" by simp
  have b: "\<not> list_ex invalidates ?between" by simp
  have w: "\<not> list_ex (writes_key (target_key ''10'' FindStepOverTarget)) ?between"
    by (simp add: target_key_def)
  from findResumeTarget_cached[OF begin_session d b, of target20] w
  have "findResumeTarget_begin ''10'' FindStepOverTarget
     (run ?between (snd (findResumeTarget_resolve
        \<lparr> lk_key = ''10:findStepOverTarget'', lk_epoch = 0 \<rparr> target20
        (run ?during
           (session\<lparr> sent := [FindTargetReq FindStepOverTarget ''10'' ''session''] \<rparr>)))))
   = (Known target20,
      run ?between (snd (findResumeTarget_resolve
        \<lparr> lk_key = ''10:findStepOverTarget'', lk_epoch = 0 \<rparr> target20
        (run ?during
           (session\<lparr> sent := [FindTargetReq FindStepOverTarget ''10'' ''session''] \<rparr>)))))"
    by blast
  with begin_session d b w show ?thesis by blast
qed

subsection \<open>Invalidation\<close>

lemma invalidateResumeTargets_end_finally:
  "snd (invalidateResumeTargets_end m st outcome s)
     = invalidate_finally (after_callback m st outcome s)"
  by (simp add: invalidateResumeTargets_end_def after_callback_def
      split: MutationStart.splits sum.splits)

lemma after_callback_fields:
  "numPendingInvalidateCommands (after_callback m st outcome s) = numPendingInvalidateCommands s"
  "invalidateCommandWaiters (after_callback m st outcome s) = invalidateCommandWaiters s"
  "released (after_callback m st outcome s) = released s"
  "sent (after_callback m st outcome s) = sent s"
  "spawned (after_callback m st outcome s) = spawned s"
  "resumeTargets (after_callback m st outcome s) = resumeTargets s"
  "resumeTargetEpoch (after_callback m st outcome s) = resumeTargetEpoch s"
  by (auto simp: after_callback_def mutation_resume_fields split: MutationStart.splits sum.splits)

lemma invalidate_finally_last:
  "numPendingInvalidateCommands s = 1 \<Longrightarrow>
     invalidate_finally s = precacheResumeTargets
       (s\<lparr> numPendingInvalidateCommands := 0,
           released := released s @ invalidateCommandWaiters s,
           invalidateCommandWaiters := [] \<rparr>)"
  by (simp add: invalidate_finally_def Let_def)

lemma invalidate_finally_pending:
  "numPendingInvalidateCommands s \<noteq> 1 \<Longrightarrow>
     invalidate_finally s
       = s\<lparr> numPendingInvalidateCommands := numPendingInvalidateCommands s - 1 \<rparr>"
  by (simp add: invalidate_finally_def Let_def)

text \<open>
  C5: \<open>_invalidateResumeTargets\<close> clears the cache and raises the epoch and the
  counter of pending commands before its callback starts; when the callback settles,
  fulfilled or rejected, the counter goes down by one; when it reaches zero, and only
  then, all waiters are released and pre-caching runs again; and
  \<open>waitForInvalidateCommandsToFinish\<close> returns at once when the counter is zero and
  registers a waiter otherwise.
\<close>

theorem invalidateResumeTargets_counter:
  "invalidateResumeTargets_begin m s0 =
     mutation_begin m
       (s0\<lparr> resumeTargets := Map.empty, resumeTargetEpoch := resumeTargetEpoch s0 + 1,
            numPendingInvalidateCommands := numPendingInvalidateCommands s0 + 1 \<rparr>) \<and>
   resumeTargets (snd (invalidateResumeTargets_begin m s0)) = Map.empty \<and>
   resumeTargetEpoch (snd (invalidateResumeTargets_begin m s0)) = resumeTargetEpoch s0 + 1 \<and>
   numPendingInvalidateCommands (snd (invalidateResumeTargets_begin m s0))
     = numPendingInvalidateCommands s0 + 1 \<and>
   numPendingInvalidateCommands (snd (invalidateResumeTargets_end m st outcome s))
     = numPendingInvalidateCommands s - 1 \<and>
   (numPendingInvalidateCommands s = 1 \<longrightarrow>
      released (snd (invalidateResumeTargets_end m st outcome s))
        = released s @ invalidateCommandWaiters s \<and>
      invalidateCommandWaiters (snd (invalidateResumeTargets_end m st outcome s)) = [] \<and>
      snd (invalidateResumeTargets_end m st outcome s)
        = precacheResumeTargets
            ((after_callback m st outcome s)
               \<lparr> numPendingInvalidateCommands := 0,
                 released := released s @ invalidateCommandWaiters s,
                 invalidateCommandWaiters := [] \<rparr>)) \<and>
   (numPendingInvalidateCommands s \<noteq> 1 \<longrightarrow>
      released (snd (invalidateResumeTargets_end m st outcome s)) = released s \<and>
      invalidateCommandWaiters (snd (invalidateResumeTargets_end m st outcome s))
        = invalidateCommandWaiters s \<and>
      sent (snd (invalidateResumeTargets_end m st outcome s)) = sent s \<and>
      spawned (snd (invalidateResumeTargets_end m st outcome s)) = spawned s) \<and>
   (numPendingInvalidateCommands s = 0 \<longrightarrow>
      waitForInvalidateCommandsToFinish w s = (None, s)) \<and>
   (numPendingInvalidateCommands s \<noteq> 0 \<longrightarrow>
      waitForInvalidateCommandsToFinish w s
        = (Some w, s\<lparr> invalidateCommandWaiters := invalidateCommandWaiters s @ [w] \<rparr>))"
proof -
  have last: "numPendingInvalidateCommands s = 1 \<Longrightarrow>
      snd (invalidateResumeTargets_end m st outcome s)
        = precacheResumeTargets
            ((after_callback m st outcome s)
               \<lparr> numPendingInvalidateCommands := 0,
                 released := released s @ invalidateCommandWaiters s,
                 invalidateCommandWaiters := [] \<rparr>)"
    using invalidate_finally_last[of "after_callback m st outcome s"]
    by (simp add: invalidateResumeTargets_end_finally after_callback_fields)
  have pending: "numPendingInvalidateCommands s \<noteq> 1 \<Longrightarrow>
      snd (invalidateResumeTargets_end m st outcome s)
        = (after_callback m st outcome s)
            \<lparr> numPendingInvalidateCommands := numPendingInvalidateCommands s - 1 \<rparr>"
    using invalidate_finally_pending[of "after_callback m st outcome s"]
    by (simp add: invalidateResumeTargets_end_finally after_callback_fields)
  show ?thesis
    by (simp add: invalidateResumeTargets_begin_fields invalidateResumeTargets_end_fields
        last pending precache_fields after_callback_fields
        waitForInvalidateCommandsToFinish_def)
      (simp add: invalidateResumeTargets_begin_def)
qed

theorem invalidateResumeTargets_counter_witness:
  "numPendingInvalidateCommands session_pending = 1 \<and>
   numPendingInvalidateCommands
     (snd (invalidateResumeTargets_end (Blackbox ''a'') MutationWaiting Rejected session_pending))
     = 0 \<and>
   released
     (snd (invalidateResumeTargets_end (Blackbox ''a'') MutationWaiting Rejected session_pending))
     = [7] \<and>
   invalidateCommandWaiters
     (snd (invalidateResumeTargets_end (Blackbox ''a'') MutationWaiting Rejected session_pending))
     = []"
  using invalidateResumeTargets_counter[of "Blackbox ''a''" session MutationWaiting Rejected
      session_pending 3]
  by (auto simp: session_pending_fields)

lemma setBreakpoint_parts:
  "fst (setBreakpoint sourceId line column condition s) = Inr ()"
  "snd (setBreakpoint sourceId line column condition s)
     = invalidateResumeTargets_begin
         (SetBreakpoint \<lparr> loc_sourceId = sourceId, loc_line = line, loc_column = column \<rparr>
            condition) s"
  by (simp_all add: setBreakpoint_def Let_def split: prod.splits)

lemma setBreakpoint_settled_rejected:
  "snd (setBreakpoint_settled sourceId line column condition st Rejected s)
     = invalidate_finally s"
  by (simp add: setBreakpoint_settled_def invalidateResumeTargets_end_def
      split: MutationStart.splits)

text \<open>
  What does hold when the request is rejected: \<open>setBreakpoint\<close> is fulfilled for its
  caller, no breakpoint is recorded, and of the operation's effects on the state only
  the cleared cache and the raised epoch remain.
\<close>

lemma setBreakpoint_rejected_state:
  "fst (setBreakpoint sourceId line column condition s) = Inr () \<and>
   breakpoints (snd (setBreakpoint_settled sourceId line column condition st Rejected s'))
     = breakpoints s' \<and>
   (let pending = snd (setBreakpoint sourceId line column condition s);
        s2 = snd (setBreakpoint_settled sourceId line column condition (fst pending) Rejected
                    (snd pending))
    in breakpoints s2 = breakpoints s \<and>
       currentPoint s2 = currentPoint s \<and> currentTime s2 = currentTime s \<and>
       currentPointHasFrames s2 = currentPointHasFrames s \<and>
       currentPause s2 = currentPause s \<and> asyncPauses s2 = asyncPauses s \<and>
       allPauses s2 = allPauses s \<and> emitted s2 = emitted s \<and>
       numPendingInvalidateCommands s2 = numPendingInvalidateCommands s \<and>
       resumeTargets s2 = Map.empty \<and>
       resumeTargetEpoch s2 = resumeTargetEpoch s + 1)"
  by (simp add: setBreakpoint_parts setBreakpoint_settled_rejected Let_def
      invalidate_finally_fields invalidate_finally_core invalidateResumeTargets_begin_fields
      invalidateResumeTargets_begin_core)

text \<open>
  A rejected request rejects the promise of \<open>_invalidateResumeTargets\<close>, whatever the
  state; \<open>setBreakpoint\<close> has not awaited that promise, so nothing catches it.
\<close>

lemma setBreakpoint_settled_unhandled:
  "fst (setBreakpoint_settled sourceId line column condition MutationWaiting Rejected s)
     = Inl RemoteFailure"
  by (simp add: setBreakpoint_settled_def invalidateResumeTargets_end_def)

text \<open>
  C8: a failure of the \<open>Debugger.setBreakpoint\<close> request is to be swallowed by
  \<open>setBreakpoint\<close>. The code does not swallow it: with a session, the call
  \<open>setBreakpoint("1", 3, 0)\<close> is fulfilled at once with its request still in flight,
  and when the service rejects the request, the rejection is the result of the promise
  that \<open>setBreakpoint\<close> dropped, an unhandled rejection.
\<close>

theorem setBreakpoint_rejection_unhandled:
  "fst (setBreakpoint ''1'' 3 0 None session) = Inr () \<and>
   fst (snd (setBreakpoint ''1'' 3 0 None session)) = MutationWaiting \<and>
   sent (snd (snd (setBreakpoint ''1'' 3 0 None session)))
     = [SetBreakpointReq \<lparr> loc_sourceId = ''1'', loc_line = 3, loc_column = 0 \<rparr> None
          ''session''] \<and>
   fst (setBreakpoint_settled ''1'' 3 0 None MutationWaiting Rejected
          (snd (snd (setBreakpoint ''1'' 3 0 None session)))) = Inl RemoteFailure"
  by (simp add: setBreakpoint_parts setBreakpoint_settled_unhandled
      invalidateResumeTargets_begin_def mutation_begin_def session_def setSessionId_def
      initial_def truthy_str_def)

theorem setBreakpoint_rejection_unhandled_witness:
  "fst (setBreakpoint_settled ''1'' 3 0 None
          (fst (snd (setBreakpoint ''1'' 3 0 None session))) Rejected
          (snd (snd (setBreakpoint ''1'' 3 0 None session)))) = Inl RemoteFailure"
  using setBreakpoint_rejection_unhandled by simp

subsection \<open>Resume operations\<close>















subsection \<open>Choosing between a generated source and its original\<close>

lemma registry_pair_fields:
  "sources registry_pair =
     [(''G'', source_of ScriptSource None), (''O'', source_of SourceMapped (Some [''G'']))]"
  "originalSources registry_pair = (\<lambda>_. [])(''G'' := [''O''])"
  "preferredGeneratedSources registry_pair = {}"
  by (simp_all add: registry_pair_def newSource_def initial_def source_of_def arrayMap_add_def)

lemma registry_pretty_fields:
  "sources registry_pretty =
     [(''G'', source_of PrettyPrinted None), (''O'', source_of SourceMapped (Some [''G'']))]"
  "originalSources registry_pretty = (\<lambda>_. [])(''G'' := [''O''])"
  "preferredGeneratedSources registry_pretty = {}"
  by (simp_all add: registry_pretty_def newSource_def initial_def source_of_def arrayMap_add_def)

lemma registry_minified_fields:
  "sources registry_minified =
     [(''G'', source_of ScriptSource None), (''O'', source_of SourceMapped (Some [''G''])),
      (''P'', source_of PrettyPrinted (Some [''G'']))]"
  "originalSources registry_minified = (\<lambda>_. [])(''G'' := [''O'', ''P''])"
  "preferredGeneratedSources registry_minified = {}"
  by (simp_all add: registry_minified_def newSource_def initial_def source_of_def
      arrayMap_add_def fun_eq_iff)

lemma registry_twin_fields:
  "sources registry_twin =
     [(''M'', source_of ScriptSource None), (''G'', source_of PrettyPrinted (Some [''M''])),
      (''O'', source_of SourceMapped (Some [''G'']))]"
  "originalSources registry_twin = (\<lambda>_. [])(''M'' := [''G''], ''G'' := [''O''])"
  "preferredGeneratedSources registry_twin = {}"
  by (simp_all add: registry_twin_def newSource_def initial_def source_of_def
      arrayMap_add_def fun_eq_iff)

lemma registry_mapped_twin_fields:
  "sources registry_mapped_twin =
     [(''M'', source_of SourceMapped None), (''G'', source_of PrettyPrinted (Some [''M''])),
      (''O'', source_of SourceMapped (Some [''G'']))]"
  "originalSources registry_mapped_twin = (\<lambda>_. [])(''M'' := [''G''], ''G'' := [''O''])"
  "preferredGeneratedSources registry_mapped_twin = {}"
  by (simp_all add: registry_mapped_twin_def newSource_def initial_def source_of_def
      arrayMap_add_def fun_eq_iff)

lemma registry_minified_original_fields:
  "sources registry_minified_original =
     [(''G'', source_of ScriptSource None), (''O'', source_of SourceMapped (Some [''G''])),
      (''P'', source_of PrettyPrinted (Some [''O'']))]"
  "originalSources registry_minified_original = (\<lambda>_. [])(''G'' := [''O''], ''O'' := [''P''])"
  "preferredGeneratedSources registry_minified_original = {}"
  by (simp_all add: registry_minified_original_def newSource_def initial_def source_of_def
      arrayMap_add_def fun_eq_iff)

lemma registry_empty_id_fields:
  "sources registry_empty_id =
     [([], source_of ScriptSource None), (''O'', source_of SourceMapped (Some [[]]))]"
  "originalSources registry_empty_id = (\<lambda>_. [])([] := [''O''])"
  "preferredGeneratedSources registry_empty_id = {}"
  by (simp_all add: registry_empty_id_def newSource_def initial_def source_of_def
      arrayMap_add_def)

text \<open>
  C6, as the claim states it, fails in each of these registries, where G has a kind
  other than sourceMapped, O has kind sourceMapped and is an original of G, and no
  preference is set: G pretty-printed with its twin not registered (the choice is G,
  with no alternate); G pretty-printed with a source-mapped twin (G counts as an
  original, and the choice is O with no alternate); G with a registered pretty-printed
  original (G is dropped as minified, and the choice is O with no alternate); O with a
  registered pretty-printed original (O is dropped, and the choice is G with no
  alternate); and G with the empty string as its id (an empty id is read as no id, and
  the choice is O with no alternate).
\<close>

theorem chooseSourceId_pair_counterexample:
  "getSourceKind registry_pretty ''G'' = Some PrettyPrinted \<and>
   getSourceKind registry_pretty ''O'' = Some SourceMapped \<and>
   originalSources registry_pretty ''G'' = [''O''] \<and>
   preferredGeneratedSources registry_pretty = {} \<and>
   chooseSourceId registry_pretty [''G'', ''O'']
     = Inr \<lparr> choice_sourceId = ''G'', choice_alternateId = None \<rparr> \<and>
   getSourceKind registry_mapped_twin ''G'' = Some PrettyPrinted \<and>
   getSourceKind registry_mapped_twin ''O'' = Some SourceMapped \<and>
   originalSources registry_mapped_twin ''G'' = [''O''] \<and>
   preferredGeneratedSources registry_mapped_twin = {} \<and>
   chooseSourceId registry_mapped_twin [''G'', ''O'']
     = Inr \<lparr> choice_sourceId = ''O'', choice_alternateId = None \<rparr> \<and>
   getSourceKind registry_minified ''G'' = Some ScriptSource \<and>
   getSourceKind registry_minified ''O'' = Some SourceMapped \<and>
   originalSources registry_minified ''G'' = [''O'', ''P''] \<and>
   preferredGeneratedSources registry_minified = {} \<and>
   chooseSourceId registry_minified [''G'', ''O'']
     = Inr \<lparr> choice_sourceId = ''O'', choice_alternateId = None \<rparr> \<and>
   getSourceKind registry_minified_original ''G'' = Some ScriptSource \<and>
   getSourceKind registry_minified_original ''O'' = Some SourceMapped \<and>
   originalSources registry_minified_original ''G'' = [''O''] \<and>
   preferredGeneratedSources registry_minified_original = {} \<and>
   chooseSourceId registry_minified_original [''G'', ''O'']
     = Inr \<lparr> choice_sourceId = ''G'', choice_alternateId = None \<rparr> \<and>
   getSourceKind registry_empty_id [] = Some ScriptSource \<and>
   getSourceKind registry_empty_id ''O'' = Some SourceMapped \<and>
   originalSources registry_empty_id [] = [''O''] \<and>
   preferredGeneratedSources registry_empty_id = {} \<and>
   chooseSourceId registry_empty_id [[], ''O'']
     = Inr \<lparr> choice_sourceId = ''O'', choice_alternateId = None \<rparr>"
  by (simp add: registry_pretty_fields registry_minified_fields registry_mapped_twin_fields
      registry_minified_original_fields registry_empty_id_fields getSourceKind_def
      chooseSourceId_def isMinifiedSource_def minifiedInfo_def source_of_def truthy_str_def)

lemma isSourceMappedSource_generated:
  "map_of (sources s) srcId = Some info \<Longrightarrow> counts_as_generated s info \<Longrightarrow>
     isSourceMappedSource s srcId = Inr False"
  by (auto simp: isSourceMappedSource_def counts_as_generated_def
      split: if_splits option.splits)

lemma chooseSourceId_both:
  assumes "map_of (sources s) gen = Some gi" "counts_as_generated s gi"
    and "map_of (sources s) orig = Some oi" "kind oi = SourceMapped"
    and "\<not> isMinifiedSource s gen" "\<not> isMinifiedSource s orig"
    and "gen \<noteq> []" "orig \<noteq> []"
  shows "chooseSourceId s [gen, orig] =
     Inr (if gen \<in> preferredGeneratedSources s
          then \<lparr> choice_sourceId = gen, choice_alternateId = Some orig \<rparr>
          else \<lparr> choice_sourceId = orig, choice_alternateId = Some gen \<rparr>)"
  using assms
  by (auto simp: chooseSourceId_def getSourceKind_def truthy_str_def counts_as_generated_def
      split: if_splits option.splits)

lemma counts_as_generated_preferred:
  "counts_as_generated (s\<lparr> preferredGeneratedSources := p \<rparr>) info
     = counts_as_generated s info"
  by (simp add: counts_as_generated_def minifiedInfo_def split: option.splits list.splits)

text \<open>
  C6, amended: for registered sources G and O with non-empty ids, where the kind of G,
  or when G is prettyPrinted the kind of its registered minified twin, is neither
  sourceMapped nor prettyPrinted, O has kind sourceMapped, neither of them is minified
  (has a registered pretty-printed original), and G is not among the preferred
  generated sources, \<open>_chooseSourceId([G, O])\<close> returns O with alternate G; after
  \<open>preferSource(G, true)\<close>, which succeeds, it returns G with alternate O.
\<close>

theorem chooseSourceId_pair:
  assumes "map_of (sources s) gen = Some gi" "counts_as_generated s gi"
    and "map_of (sources s) orig = Some oi" "kind oi = SourceMapped"
    and "\<not> isMinifiedSource s gen" "\<not> isMinifiedSource s orig"
    and "gen \<noteq> []" "orig \<noteq> []"
    and "gen \<notin> preferredGeneratedSources s"
  shows "chooseSourceId s [gen, orig]
           = Inr \<lparr> choice_sourceId = orig, choice_alternateId = Some gen \<rparr> \<and>
         (\<exists>s'. preferSource gen True s = Inr s' \<and>
            chooseSourceId s' [gen, orig]
              = Inr \<lparr> choice_sourceId = gen, choice_alternateId = Some orig \<rparr>)"
proof -
  let ?s' = "s\<lparr> preferredGeneratedSources := insert gen (preferredGeneratedSources s) \<rparr>"
  have 1: "chooseSourceId s [gen, orig]
      = Inr \<lparr> choice_sourceId = orig, choice_alternateId = Some gen \<rparr>"
    using chooseSourceId_both[OF assms(1-8)] assms(9) by simp
  have 2: "preferSource gen True s = Inr ?s'"
    using isSourceMappedSource_generated[OF assms(1,2)] by (simp add: preferSource_def)
  have "chooseSourceId ?s' [gen, orig] =
     Inr (if gen \<in> preferredGeneratedSources ?s'
          then \<lparr> choice_sourceId = gen, choice_alternateId = Some orig \<rparr>
          else \<lparr> choice_sourceId = orig, choice_alternateId = Some gen \<rparr>)"
    using assms(1-8)
    by (intro chooseSourceId_both)
      (simp_all add: isMinifiedSource_def counts_as_generated_preferred)
  then have 3: "chooseSourceId ?s' [gen, orig]
      = Inr \<lparr> choice_sourceId = gen, choice_alternateId = Some orig \<rparr>"
    by simp
  from 1 2 3 show ?thesis by simp
qed

text \<open>The witness: a script G, and a pretty-printed G whose twin is a script.\<close>

theorem chooseSourceId_pair_witness:
  "chooseSourceId registry_pair [''G'', ''O'']
     = Inr \<lparr> choice_sourceId = ''O'', choice_alternateId = Some ''G'' \<rparr> \<and>
   (\<exists>s'. preferSource ''G'' True registry_pair = Inr s' \<and>
      chooseSourceId s' [''G'', ''O'']
        = Inr \<lparr> choice_sourceId = ''G'', choice_alternateId = Some ''O'' \<rparr>) \<and>
   getSourceKind registry_twin ''G'' = Some PrettyPrinted \<and>
   chooseSourceId registry_twin [''G'', ''O'']
     = Inr \<lparr> choice_sourceId = ''O'', choice_alternateId = Some ''G'' \<rparr> \<and>
   (\<exists>s'. preferSource ''G'' True registry_twin = Inr s' \<and>
      chooseSourceId s' [''G'', ''O'']
        = Inr \<lparr> choice_sourceId = ''G'', choice_alternateId = Some ''O'' \<rparr>)"
  using chooseSourceId_pair[of registry_pair "''G''" "source_of ScriptSource None" "''O''"
      "source_of SourceMapped (Some [''G''])"]
    chooseSourceId_pair[of registry_twin "''G''" "source_of PrettyPrinted (Some [''M''])"
      "''O''" "source_of SourceMapped (Some [''G''])"]
  by (simp add: registry_pair_fields registry_twin_fields isMinifiedSource_def source_of_def
      counts_as_generated_def minifiedInfo_def getSourceKind_def)

subsection \<open>Grouping sources\<close>

text \<open>
  Whatever is reachable from an id of a closed set is in the set, and in a reversed
  registry reachability from the ids of a closed set is symmetric, so that the ids
  reachable from one another form classes.
\<close>

lemma registered_iff: "registered s x \<longleftrightarrow> x \<in> fst ` set (sources s)"
  by (simp add: registered_def map_of_eq_None_iff)

lemma closed_step:
  assumes "closed_in s C" and "x \<in> C" and "(x, y) \<in> adjacent s"
  shows "y \<in> C"
  using assms unfolding closed_in_def by blast

lemma closed_registered:
  assumes "closed_in s C" and "x \<in> C"
  shows "registered s x"
  using assms unfolding closed_in_def by blast

lemma closed_reach:
  assumes "closed_in s C" and "(x, y) \<in> (adjacent s)\<^sup>*" and "x \<in> C"
  shows "y \<in> C"
  using assms(2,3)
proof (induction rule: rtrancl_induct)
  case base
  then show ?case .
next
  case (step y z)
  then have "y \<in> C" by simp
  then show ?case using step.hyps(2) by (rule closed_step[OF assms(1)])
qed

lemma reachable_closed:
  assumes "reachable_registered s ids"
  shows "closed_in s ((adjacent s)\<^sup>* `` set ids)" and "set ids \<subseteq> (adjacent s)\<^sup>* `` set ids"
proof -
  have "adjacent s `` ((adjacent s)\<^sup>* `` set ids) \<subseteq> (adjacent s)\<^sup>* `` set ids"
    by (blast intro: rtrancl_into_rtrancl)
  with assms show "closed_in s ((adjacent s)\<^sup>* `` set ids)"
    unfolding closed_in_def reachable_registered_def by blast
  show "set ids \<subseteq> (adjacent s)\<^sup>* `` set ids" by blast
qed

lemma adjacent_sym:
  assumes "registry_reversed s" and "registered s x" and "(x, y) \<in> adjacent s"
  shows "(y, x) \<in> adjacent s"
  using assms
  by (auto simp: registry_reversed_def list_all_iff registered_iff adjacent_def neighbours_def)

lemma reach_sym:
  assumes "closed_in s C" and "registry_reversed s"
    and "(x, y) \<in> (adjacent s)\<^sup>*" and "x \<in> C"
  shows "(y, x) \<in> (adjacent s)\<^sup>*"
  using assms(3,4)
proof (induction rule: rtrancl_induct)
  case base
  show ?case by simp
next
  case (step y z)
  then have "(y, x) \<in> (adjacent s)\<^sup>*" by simp
  moreover have "y \<in> C" using closed_reach[OF assms(1) step.hyps(1) step.prems] .
  then have "registered s y" by (rule closed_registered[OF assms(1)])
  then have "(z, y) \<in> adjacent s" using adjacent_sym[OF assms(2) _ step.hyps(2)] by simp
  ultimately show ?case by (rule converse_rtrancl_into_rtrancl[rotated])
qed

lemma adjacent_Image: "adjacent s `` {x} = set (neighbours s x)"
  by (auto simp: adjacent_def)

lemma reach_unfold: "(adjacent s)\<^sup>* `` {x} = insert x ((adjacent s)\<^sup>* `` set (neighbours s x))"
proof -
  have "(adjacent s)\<^sup>* `` {x} = insert x ((adjacent s)\<^sup>* `` (adjacent s `` {x}))"
    by (auto elim: converse_rtranclE intro: converse_rtrancl_into_rtrancl)
  then show ?thesis by (simp add: adjacent_Image)
qed

text \<open>
  The walk of \<open>_getAlternateSourceIds\<close>: started from an id of a closed set it
  returns, without repetition, exactly the ids reachable from that id.
\<close>

lemma getAlternateLoop_reach:
  "closed_in s C \<Longrightarrow> set (rv @ worklist) \<subseteq> C \<Longrightarrow> distinct rv \<Longrightarrow>
         (\<forall>x \<in> set rv. set (neighbours s x) \<subseteq> set rv \<union> set worklist) \<Longrightarrow>
         \<exists>res. getAlternateLoop s rv worklist = Inr res \<and> distinct res \<and>
               set res = set rv \<union> (adjacent s)\<^sup>* `` set worklist"
proof (induction s rv worklist rule: getAlternateLoop.induct)
  case (1 s rv)
  then show ?case by simp
next
  case (2 s rv srcId worklist)
  note closed = "2.prems"(1)
  show ?case
  proof (cases "srcId \<in> set rv")
    case True
    have inv: "\<forall>x \<in> set rv. set (neighbours s x) \<subseteq> set rv \<union> set worklist"
      using "2.prems"(4) True by auto
    from "2.IH"(1)[OF True closed _ "2.prems"(3) inv] "2.prems"(2)
    obtain res where res: "getAlternateLoop s rv worklist = Inr res" "distinct res"
      "set res = set rv \<union> (adjacent s)\<^sup>* `` set worklist"
      by auto
    let ?S = "set rv \<union> (adjacent s)\<^sup>* `` set worklist"
    have "adjacent s `` ?S \<subseteq> ?S"
    proof
      fix y assume "y \<in> adjacent s `` ?S"
      then obtain x where x: "x \<in> ?S" "(x, y) \<in> adjacent s" by auto
      show "y \<in> ?S"
      proof (cases "x \<in> set rv")
        case True
        with inv x(2) have "y \<in> set rv \<union> set worklist" by (auto simp: adjacent_def)
        then show ?thesis by auto
      next
        case False
        with x(1) have "x \<in> (adjacent s)\<^sup>* `` set worklist" by simp
        with x(2) have "y \<in> (adjacent s)\<^sup>* `` set worklist"
          by (auto intro: rtrancl_into_rtrancl)
        then show ?thesis by simp
      qed
    qed
    then have "(adjacent s)\<^sup>* `` ?S = ?S" by (rule Image_closed_trancl)
    moreover have "srcId \<in> ?S" using True by simp
    ultimately have "(adjacent s)\<^sup>* `` {srcId} \<subseteq> ?S" by blast
    then have "set rv \<union> (adjacent s)\<^sup>* `` set (srcId # worklist) = ?S"
      by auto
    with res True show ?thesis by simp
  next
    case False
    from "2.prems"(2) have inC: "srcId \<in> C" by simp
    then have "registered s srcId" by (rule closed_registered[OF closed])
    then obtain info where info: "map_of (sources s) srcId = Some info"
      by (auto simp: registered_def)
    let ?gens = "case generatedSourceIds info of None \<Rightarrow> [] | Some ids \<Rightarrow> ids"
    let ?wl = "rev (originalSources s srcId) @ rev ?gens @ worklist"
    have nb: "set (neighbours s srcId) = set (originalSources s srcId) \<union> set ?gens"
      using info by (auto simp: neighbours_def generatedOf_def)
    have "set (neighbours s srcId) \<subseteq> C"
      using closed_step[OF closed inC] by (auto simp: adjacent_def)
    then have reg: "set ((rv @ [srcId]) @ ?wl) \<subseteq> C"
      using "2.prems"(2) nb by auto
    have dist: "distinct (rv @ [srcId])" using "2.prems"(3) False by simp
    have inv: "\<forall>x \<in> set (rv @ [srcId]). set (neighbours s x) \<subseteq> set (rv @ [srcId]) \<union> set ?wl"
      using "2.prems"(4) nb by auto
    from "2.IH"(2)[OF False info closed reg dist inv]
    obtain res where res: "getAlternateLoop s (rv @ [srcId]) ?wl = Inr res" "distinct res"
      "set res = set (rv @ [srcId]) \<union> (adjacent s)\<^sup>* `` set ?wl"
      by auto
    have "set ?wl = set (neighbours s srcId) \<union> set worklist" using nb by auto
    then have "(adjacent s)\<^sup>* `` set ?wl
        = (adjacent s)\<^sup>* `` set (neighbours s srcId) \<union> (adjacent s)\<^sup>* `` set worklist"
      by auto
    moreover have "(adjacent s)\<^sup>* `` set (srcId # worklist)
        = (adjacent s)\<^sup>* `` {srcId} \<union> (adjacent s)\<^sup>* `` set worklist"
      by auto
    ultimately have "set (rv @ [srcId]) \<union> (adjacent s)\<^sup>* `` set ?wl
        = set rv \<union> (adjacent s)\<^sup>* `` set (srcId # worklist)"
      using reach_unfold[of s srcId] by auto
    with res False info show ?thesis by simp
  qed
qed

lemma getAlternateSourceIds_reach:
  assumes "closed_in s C" and "x \<in> C"
  shows "\<exists>res. getAlternateSourceIds s x = Inr res \<and> distinct res \<and>
           set res = (adjacent s)\<^sup>* `` {x}"
  using getAlternateLoop_reach[OF assms(1), of "[]" "[x]"] assms(2)
  by (simp add: getAlternateSourceIds_def)

lemma reach_class:
  assumes "closed_in s C" and "registry_reversed s"
    and "x \<in> C" and "(x, y) \<in> (adjacent s)\<^sup>*"
  shows "(adjacent s)\<^sup>* `` {y} = (adjacent s)\<^sup>* `` {x}"
proof -
  have yx: "(y, x) \<in> (adjacent s)\<^sup>*" using reach_sym[OF assms(1,2,4,3)] .
  show ?thesis
  proof (rule set_eqI)
    fix z
    have "(y, z) \<in> (adjacent s)\<^sup>* \<longleftrightarrow> (x, z) \<in> (adjacent s)\<^sup>*"
      using rtrancl_trans[OF assms(4), of z] rtrancl_trans[OF yx, of z] by blast
    then show "z \<in> (adjacent s)\<^sup>* `` {y} \<longleftrightarrow> z \<in> (adjacent s)\<^sup>* `` {x}"
      by simp
  qed
qed

lemma groupSourceIds_classes:
  "closed_in s C \<Longrightarrow> registry_reversed s \<Longrightarrow> set ids \<subseteq> C \<Longrightarrow>
   \<exists>groups. groupSourceIds s ids = Inr groups \<and> set (concat groups) = set ids \<and>
     distinct (concat groups) \<and>
     (\<forall>g \<in> set groups. g \<noteq> [] \<and> (\<forall>x \<in> set g. set g = (adjacent s)\<^sup>* `` {x} \<inter> set ids))"
proof (induction s ids rule: groupSourceIds.induct)
  case (1 s)
  then show ?case by (simp add: groupSourceIds.simps(1))
next
  case (2 s srcId ids)
  note closed = "2.prems"(1) and reversed = "2.prems"(2)
  from "2.prems"(3) have reg0: "srcId \<in> C" and regs: "set ids \<subseteq> C"
    by simp_all
  obtain alternates where alt: "getAlternateSourceIds s srcId = Inr alternates"
    "distinct alternates" "set alternates = (adjacent s)\<^sup>* `` {srcId}"
    using getAlternateSourceIds_reach[OF closed reg0] by auto
  define group where "group = filter (\<lambda>x. x \<in> set (srcId # ids)) alternates"
  define rest where "rest = filter (\<lambda>x. x \<notin> set group) (srcId # ids)"
  have group_set: "set group = (adjacent s)\<^sup>* `` {srcId} \<inter> set (srcId # ids)"
    using alt(3) by (auto simp: group_def)
  have rest_set: "set rest = set (srcId # ids) - set group"
    by (auto simp: rest_def)
  have "set rest \<subseteq> C"
    using reg0 regs by (auto simp: rest_def)
  from "2.IH"[OF alt(1) group_def closed reversed this[unfolded rest_def], folded rest_def]
  obtain groups where groups: "groupSourceIds s rest = Inr groups"
    "set (concat groups) = set rest" "distinct (concat groups)"
    "\<forall>g \<in> set groups. g \<noteq> [] \<and> (\<forall>x \<in> set g. set g = (adjacent s)\<^sup>* `` {x} \<inter> set rest)"
    by blast
  have result: "groupSourceIds s (srcId # ids) = Inr (group # groups)"
    using groups(1) unfolding rest_def group_def
    by (subst groupSourceIds.simps(2)) (simp only: alt(1) sum.case Let_def)
  have cover: "set (concat (group # groups)) = set (srcId # ids)"
    using groups(2) group_set rest_set by auto
  have dist: "distinct (concat (group # groups))"
    using groups(2,3) rest_set alt(2) by (auto simp: group_def)
  have head: "srcId \<in> set group" using group_set by simp
  have first: "set group = (adjacent s)\<^sup>* `` {x} \<inter> set (srcId # ids)" if "x \<in> set group" for x
  proof -
    from that group_set have "(srcId, x) \<in> (adjacent s)\<^sup>*" by auto
    from reach_class[OF closed reversed reg0 this] group_set show ?thesis by simp
  qed
  have later: "set g = (adjacent s)\<^sup>* `` {x} \<inter> set (srcId # ids)"
    if g: "g \<in> set groups" and x: "x \<in> set g" for g x
  proof -
    from g x groups(4) have gx: "set g = (adjacent s)\<^sup>* `` {x} \<inter> set rest" by auto
    from g x have "x \<in> set (concat groups)" by auto
    with groups(2) have xr: "x \<in> set rest" by simp
    then have xin: "x \<in> set (srcId # ids)" and xng: "x \<notin> set group" using rest_set by auto
    from xin reg0 regs have regx: "x \<in> C" by auto
    have "y \<notin> set group" if y: "(x, y) \<in> (adjacent s)\<^sup>*" for y
    proof
      assume "y \<in> set group"
      then have sy: "(srcId, y) \<in> (adjacent s)\<^sup>*" using group_set by auto
      have "(y, x) \<in> (adjacent s)\<^sup>*" using reach_sym[OF closed reversed y regx] .
      with sy have "(srcId, x) \<in> (adjacent s)\<^sup>*" by (rule rtrancl_trans)
      with xin have "x \<in> set group" using group_set by auto
      with xng show False by simp
    qed
    then have "(adjacent s)\<^sup>* `` {x} \<inter> set (srcId # ids) = (adjacent s)\<^sup>* `` {x} \<inter> set rest"
      using rest_set by auto
    with gx show ?thesis by simp
  qed
  have classes: "\<forall>g \<in> set (group # groups).
      g \<noteq> [] \<and> (\<forall>x \<in> set g. set g = (adjacent s)\<^sup>* `` {x} \<inter> set (srcId # ids))"
  proof
    fix g assume "g \<in> set (group # groups)"
    then consider "g = group" | "g \<in> set groups" by auto
    then show "g \<noteq> [] \<and> (\<forall>x \<in> set g. set g = (adjacent s)\<^sup>* `` {x} \<inter> set (srcId # ids))"
    proof cases
      case 1
      have "group \<noteq> []" using head by auto
      moreover have "\<forall>x \<in> set group.
          set group = (adjacent s)\<^sup>* `` {x} \<inter> set (srcId # ids)"
        using first by blast
      ultimately show ?thesis unfolding 1 by (rule conjI)
    next
      case 2
      with groups(4) have "g \<noteq> []" by blast
      moreover have "\<forall>x \<in> set g. set g = (adjacent s)\<^sup>* `` {x} \<inter> set (srcId # ids)"
        using later[OF 2] by blast
      ultimately show ?thesis by (rule conjI)
    qed
  qed
  show ?case
    by (intro exI[of _ "group # groups"] conjI result cover dist classes)
qed

lemma registry_abx_fields:
  "sources registry_abx =
     [(''A'', source_of SourceMapped (Some [''X''])), (''X'', source_of ScriptSource None),
      (''B'', source_of ScriptSource None)]"
  "originalSources registry_abx = (\<lambda>_. [])(''X'' := [''A''])"
  by (simp_all add: registry_abx_def newSource_def initial_def source_of_def arrayMap_add_def)

lemma registry_early_fields:
  "sources registry_early = [(''A'', source_of SourceMapped (Some [''X'']))]"
  "originalSources registry_early = (\<lambda>_. [])(''X'' := [''A''])"
  by (simp_all add: registry_early_def newSource_def initial_def source_of_def arrayMap_add_def)

text \<open>
  The listener keeps the registry mirrored as long as no id is announced twice, and a
  mirrored registry is reversed.
\<close>

lemma arrayMap_add_fold:
  "set (foldl (\<lambda>m generatedId. arrayMap_add generatedId v m) m ids k)
     = set (m k) \<union> (if k \<in> set ids then {v} else {})"
  by (induction ids arbitrary: m) (auto simp: arrayMap_add_def)

lemma initial_mirror: "registry_mirror initial"
  by (simp add: registry_mirror_def generatedOf_def initial_def)

lemma newSource_generatedOf:
  "generatedOf (newSource srcId source s) x =
     (if x = srcId then (case generatedSourceIds source of None \<Rightarrow> [] | Some ids \<Rightarrow> ids)
      else generatedOf s x)"
  by (simp add: generatedOf_def newSource_def update_conv')

lemma newSource_originalSources:
  "set (originalSources (newSource srcId source s) y)
     = set (originalSources s y) \<union>
       (if y \<in> set (case generatedSourceIds source of None \<Rightarrow> [] | Some ids \<Rightarrow> ids)
        then {srcId} else {})"
  by (simp add: newSource_def arrayMap_add_fold)

lemma newSource_mirror:
  assumes "registry_mirror s" and "\<not> registered s srcId"
  shows "registry_mirror (newSource srcId source s)"
proof -
  from assms(2) have "generatedOf s srcId = []"
    by (simp add: generatedOf_def registered_def)
  moreover have "y \<in> set (generatedOf s srcId) \<longleftrightarrow> srcId \<in> set (originalSources s y)" for y
    using assms(1) unfolding registry_mirror_def by blast
  ultimately have fresh: "srcId \<notin> set (originalSources s y)" for y
    by simp
  show ?thesis
    unfolding registry_mirror_def newSource_generatedOf newSource_originalSources
    using assms(1) fresh by (auto simp: registry_mirror_def)
qed

lemma mirror_reversed: "registry_mirror s \<Longrightarrow> registry_reversed s"
  by (simp add: registry_mirror_def registry_reversed_def list_all_iff)

text \<open>
  C7, as the claim states it, fails for a list whose walk meets an id that is not
  registered: with A registered as an original of X before X is announced, grouping
  the list [A] ends in a failed assertion, and no partition is returned.
\<close>

theorem groupSourceIds_counterexample:
  "list_all (registered registry_early) [''A''] \<and>
   groupSourceIds registry_early [''A''] = Inl AssertionFailed \<and>
   chooseSourceIdList registry_early [''A''] = Inl AssertionFailed"
  by (simp add: groupSourceIds.simps registered_def registry_early_fields
      chooseSourceIdList_def getAlternateSourceIds_def source_of_def)

text \<open>
  C7, amended: when every id reachable from the input ids over the generated/original
  adjacency is registered (the input ids among them) and the registry is reversed,
  \<open>_groupSourceIds\<close> partitions the input ids by reachability: every id of the list is
  in exactly one group, no group is empty, two ids of the list are in the same group
  exactly when one is reachable from the other, and \<open>_chooseSourceIdList\<close> is the
  choice made in each of these groups. For A an original of X and an unrelated B, the
  list [A, X, B] gives the groups [A, X] and [B].
\<close>

theorem groupSourceIds_partition:
  assumes "reachable_registered s ids" and "registry_reversed s"
  shows "\<exists>groups. groupSourceIds s ids = Inr groups \<and>
           chooseSourceIdList s ids = chooseAll s groups \<and>
           set (concat groups) = set ids \<and> distinct (concat groups) \<and> [] \<notin> set groups \<and>
           (\<forall>x \<in> set ids. \<forall>y \<in> set ids.
              (\<exists>g \<in> set groups. x \<in> set g \<and> y \<in> set g) \<longleftrightarrow> (x, y) \<in> (adjacent s)\<^sup>*)"
proof -
  from groupSourceIds_classes[OF reachable_closed(1)[OF assms(1)] assms(2)
      reachable_closed(2)[OF assms(1)]]
  obtain groups where groups: "groupSourceIds s ids = Inr groups"
    "set (concat groups) = set ids" "distinct (concat groups)"
    "\<forall>g \<in> set groups. g \<noteq> [] \<and> (\<forall>x \<in> set g. set g = (adjacent s)\<^sup>* `` {x} \<inter> set ids)"
    by auto
  have "(\<exists>g \<in> set groups. x \<in> set g \<and> y \<in> set g) \<longleftrightarrow> (x, y) \<in> (adjacent s)\<^sup>*"
    if x: "x \<in> set ids" and y: "y \<in> set ids" for x y
  proof
    assume "\<exists>g \<in> set groups. x \<in> set g \<and> y \<in> set g"
    then obtain g where g: "g \<in> set groups" "x \<in> set g" "y \<in> set g" by auto
    with groups(4) have "set g = (adjacent s)\<^sup>* `` {x} \<inter> set ids" by auto
    with g(3) show "(x, y) \<in> (adjacent s)\<^sup>*" by auto
  next
    assume r: "(x, y) \<in> (adjacent s)\<^sup>*"
    from x groups(2) obtain g where g: "g \<in> set groups" "x \<in> set g" by auto
    with groups(4) have "set g = (adjacent s)\<^sup>* `` {x} \<inter> set ids" by auto
    with r y have "y \<in> set g" by auto
    with g show "\<exists>g \<in> set groups. x \<in> set g \<and> y \<in> set g" by auto
  qed
  moreover have "[] \<notin> set groups" using groups(4) by auto
  moreover have "chooseSourceIdList s ids = chooseAll s groups"
    using groups(1) by (simp add: chooseSourceIdList_def)
  ultimately show ?thesis using groups(1,2,3) by blast
qed

text \<open>
  The witness is the registry of A, X and B beside a source Z whose generated source W
  has not been announced: W is reachable from Z only, so every id reachable from the
  list is registered although not every id the registry mentions is.
\<close>

lemma registry_far_fields:
  "sources registry_far =
     [(''A'', source_of SourceMapped (Some [''X''])), (''X'', source_of ScriptSource None),
      (''B'', source_of ScriptSource None), (''Z'', source_of SourceMapped (Some [''W'']))]"
  "originalSources registry_far = (\<lambda>_. [])(''X'' := [''A''], ''W'' := [''Z''])"
  by (simp_all add: registry_far_def registry_abx_fields newSource_def source_of_def
      arrayMap_add_def)

lemma registry_far_groups:
  "groupSourceIds registry_far [''A'', ''X'', ''B''] = Inr [[''A'', ''X''], [''B'']]"
  by (simp add: groupSourceIds.simps registry_far_fields getAlternateSourceIds_def source_of_def)

lemma registry_far_wellformed:
  "reachable_registered registry_far [''A'', ''X'', ''B'']" "registry_reversed registry_far"
proof -
  have "adjacent registry_far `` {''A'', ''X'', ''B''} \<subseteq> {''A'', ''X'', ''B''}"
    by (auto simp: adjacent_def neighbours_def generatedOf_def registry_far_fields
        source_of_def split: if_splits)
  then have "(adjacent registry_far)\<^sup>* `` {''A'', ''X'', ''B''} = {''A'', ''X'', ''B''}"
    by (rule Image_closed_trancl)
  then show "reachable_registered registry_far [''A'', ''X'', ''B'']"
    by (simp add: reachable_registered_def registered_def registry_far_fields)
  show "registry_reversed registry_far"
    by (simp add: registry_reversed_def generatedOf_def registry_far_fields source_of_def)
qed

theorem groupSourceIds_partition_witness:
  "reachable_registered registry_far [''A'', ''X'', ''B''] \<and>
   registry_reversed registry_far \<and>
   (''Z'', ''W'') \<in> adjacent registry_far \<and> \<not> registered registry_far ''W'' \<and>
   groupSourceIds registry_far [''A'', ''X'', ''B''] = Inr [[''A'', ''X''], [''B'']] \<and>
   (''A'', ''X'') \<in> (adjacent registry_far)\<^sup>* \<and>
   (''A'', ''B'') \<notin> (adjacent registry_far)\<^sup>*"
proof -
  from groupSourceIds_partition[OF registry_far_wellformed]
  have iff: "(\<exists>g \<in> set [[''A'', ''X''], [''B'']]. x \<in> set g \<and> y \<in> set g)
      \<longleftrightarrow> (x, y) \<in> (adjacent registry_far)\<^sup>*"
    if "x \<in> set [''A'', ''X'', ''B'']" and "y \<in> set [''A'', ''X'', ''B'']" for x y
    using that unfolding registry_far_groups by blast
  have "(''A'', ''X'') \<in> (adjacent registry_far)\<^sup>*"
    using iff[of "''A''" "''X''"] by simp
  moreover have "(''A'', ''B'') \<notin> (adjacent registry_far)\<^sup>*"
    using iff[of "''A''" "''B''"] by simp
  moreover have "(''Z'', ''W'') \<in> adjacent registry_far" "\<not> registered registry_far ''W''"
    by (simp_all add: adjacent_def neighbours_def generatedOf_def registered_def
        registry_far_fields source_of_def)
  ultimately show ?thesis
    using registry_far_groups registry_far_wellformed by blast
qed

end
